theory Spec2Isabelle
  imports Complex_Main "HOL-Library.Log_Nat" "HOL-Library.Multiset"
begin

section \<open>JavaScript numbers\<close>

text \<open>
  Every number of the program is an IEEE 754 double. A finite double is modelled by the
  rational it denotes, the other values by constructors of their own. The two zeros are
  not told apart: the program never divides by a negative zero and prints both as 0.
\<close>

datatype jsnum = Num rat | PInf | NInf | NaN

text \<open>
  \<open>ilog2 x\<close> is the binary exponent of a non-zero rational, the integer \<open>k\<close> with
  \<open>2 powi k \<le> \<bar>x\<bar> < 2 powi (k + 1)\<close>, computed from the bit lengths of the numerator
  and the denominator. \<open>rhe\<close> rounds to the nearest integer, ties to the even one.
\<close>

definition ilog2 :: "rat \<Rightarrow> int" where
  "ilog2 x = (case quotient_of \<bar>x\<bar> of (p, q) \<Rightarrow>
     (let k = bitlen p - bitlen q in
      if of_int q * (2::rat) powi k \<le> of_int p then k else k - 1))"

definition rhe :: "rat \<Rightarrow> int" where
  "rhe y = (let f = \<lfloor>y\<rfloor>; d = y - of_int f in
     if d < 1/2 then f else if 1/2 < d then f + 1 else if even f then f else f + 1)"

text \<open>
  Rounding to double precision: 53 significant bits, the exponent of the last bit never
  below \<open>-1074\<close> (gradual underflow), ties to even. \<open>fl\<close> is the result of an operation
  whose exact value is \<open>x\<close>: the rounded value, or an infinity when that leaves the range.
\<close>

definition fexp :: "rat \<Rightarrow> int" where
  "fexp x = max (ilog2 x - 52) (- 1074)"

definition rnd :: "rat \<Rightarrow> rat" where
  "rnd x = (if x = 0 then 0 else of_int (rhe (x / 2 powi fexp x)) * 2 powi fexp x)"

definition fl :: "rat \<Rightarrow> jsnum" where
  "fl x = (let r = rnd x in
     if 2 ^ 1024 \<le> r then PInf else if r \<le> - (2 ^ 1024) then NInf else Num r)"

fun jneg :: "jsnum \<Rightarrow> jsnum" where
  "jneg (Num a) = Num (- a)"
| "jneg PInf = NInf"
| "jneg NInf = PInf"
| "jneg NaN = NaN"

text \<open>The operators \<open>+\<close>, \<open>-\<close>, \<open>*\<close> and \<open>/\<close> on numbers.\<close>

fun jadd :: "jsnum \<Rightarrow> jsnum \<Rightarrow> jsnum" where
  "jadd (Num a) (Num b) = fl (a + b)"
| "jadd NaN y = NaN"
| "jadd x NaN = NaN"
| "jadd PInf NInf = NaN"
| "jadd NInf PInf = NaN"
| "jadd PInf y = PInf"
| "jadd NInf y = NInf"
| "jadd x PInf = PInf"
| "jadd x NInf = NInf"

definition jsub :: "jsnum \<Rightarrow> jsnum \<Rightarrow> jsnum" where
  "jsub x y = jadd x (jneg y)"

fun jmul :: "jsnum \<Rightarrow> jsnum \<Rightarrow> jsnum" where
  "jmul (Num a) (Num b) = fl (a * b)"
| "jmul NaN y = NaN"
| "jmul x NaN = NaN"
| "jmul (Num a) y = (if a = 0 then NaN else if 0 < a then y else jneg y)"
| "jmul x (Num b) = (if b = 0 then NaN else if 0 < b then x else jneg x)"
| "jmul PInf y = y"
| "jmul NInf y = jneg y"

fun jdiv :: "jsnum \<Rightarrow> jsnum \<Rightarrow> jsnum" where
  "jdiv (Num a) (Num b) =
     (if b = 0 then (if a = 0 then NaN else if 0 < a then PInf else NInf) else fl (a / b))"
| "jdiv NaN y = NaN"
| "jdiv x NaN = NaN"
| "jdiv (Num a) y = Num 0"
| "jdiv x (Num b) = (if 0 \<le> b then x else jneg x)"
| "jdiv x y = NaN"

text \<open>
  \<open>Math.round\<close> (to the nearest integer, a tie upwards), \<open>Math.floor\<close> and
  \<open>Math.max(0, x)\<close>; the result of each is a double when the argument is.
\<close>

fun jround :: "jsnum \<Rightarrow> jsnum" where
  "jround (Num a) = Num (of_int \<lfloor>a + 1/2\<rfloor>)"
| "jround x = x"

fun jfloor :: "jsnum \<Rightarrow> jsnum" where
  "jfloor (Num a) = Num (of_int \<lfloor>a\<rfloor>)"
| "jfloor x = x"

fun jmax0 :: "jsnum \<Rightarrow> jsnum" where
  "jmax0 (Num a) = Num (max 0 a)"
| "jmax0 PInf = PInf"
| "jmax0 NInf = Num 0"
| "jmax0 NaN = NaN"

text \<open>Truthiness of a number (\<open>x || y\<close>, \<open>!x\<close>) and the comparisons \<open>x < y\<close>, \<open>x <= y\<close>.\<close>

fun truthy :: "jsnum \<Rightarrow> bool" where
  "truthy (Num a) = (a \<noteq> 0)"
| "truthy NaN = False"
| "truthy PInf = True"
| "truthy NInf = True"

fun jless :: "jsnum \<Rightarrow> jsnum \<Rightarrow> bool" where
  "jless (Num a) (Num b) = (a < b)"
| "jless NaN y = False"
| "jless x NaN = False"
| "jless x NInf = False"
| "jless PInf y = False"
| "jless x y = True"

fun jle :: "jsnum \<Rightarrow> jsnum \<Rightarrow> bool" where
  "jle (Num a) (Num b) = (a \<le> b)"
| "jle NaN y = False"
| "jle x NaN = False"
| "jle NInf y = True"
| "jle x PInf = True"
| "jle x y = False"

text \<open>
  A value that an operation can return: a finite one is a double, that is, rounding
  leaves it as it is.
\<close>

fun isDouble :: "jsnum \<Rightarrow> bool" where
  "isDouble (Num a) = (fl a = Num a)"
| "isDouble x = True"


subsection \<open>Properties of the rounding\<close>

lemma bitlen_powi_bounds:
  assumes "0 < p"
  shows "(2::rat) powi (bitlen p - 1) \<le> of_int p" and "of_int p < (2::rat) powi bitlen p"
proof -
  from bitlen_bounds [OF assms]
  have lo: "2 ^ nat (bitlen p - 1) \<le> p" and hi: "p < 2 ^ nat (bitlen p)" by auto
  have pos: "1 \<le> bitlen p"
    using assms bitlen_eq_zero_iff [of p] bitlen_nonneg [of p] by linarith
  have "(2::rat) powi (bitlen p - 1) = 2 ^ nat (bitlen p - 1)"
    using pos by (simp add: power_int_def)
  also have "\<dots> = of_int (2 ^ nat (bitlen p - 1))" by simp
  also have "\<dots> \<le> of_int p" using lo by (simp only: of_int_le_iff)
  finally show "(2::rat) powi (bitlen p - 1) \<le> of_int p" .
  have "(of_int p :: rat) < of_int (2 ^ nat (bitlen p))" using hi by (simp only: of_int_less_iff)
  also have "\<dots> = 2 ^ nat (bitlen p)" by simp
  also have "\<dots> = (2::rat) powi bitlen p" using pos by (simp add: power_int_def)
  finally show "of_int p < (2::rat) powi bitlen p" .
qed

lemma ilog2_bounds:
  assumes "x \<noteq> 0"
  shows "(2::rat) powi ilog2 x \<le> \<bar>x\<bar> \<and> \<bar>x\<bar> < 2 powi (ilog2 x + 1)"
proof -
  obtain p q where pq: "quotient_of \<bar>x\<bar> = (p, q)" by (cases "quotient_of \<bar>x\<bar>")
  have q: "0 < q" using pq by (rule quotient_of_denom_pos)
  have x: "\<bar>x\<bar> = of_int p / of_int q" using pq by (rule quotient_of_div)
  have p: "0 < p"
  proof -
    have "0 < \<bar>x\<bar>" using assms by simp
    then have "0 < (of_int p :: rat) / of_int q" using x by simp
    then have "0 < (of_int p :: rat)" using q by (simp add: zero_less_divide_iff)
    then show ?thesis by simp
  qed
  define k where "k = bitlen p - bitlen q"
  have qr: "0 < (of_int q :: rat)" using q by simp
  note bp = bitlen_powi_bounds [OF p] and bq = bitlen_powi_bounds [OF q]
  have two: "(2::rat) powi (a + b) = 2 powi a * 2 powi b" for a b :: int
    by (simp add: power_int_add)
  show ?thesis
  proof (cases "of_int q * (2::rat) powi k \<le> of_int p")
    case True
    then have il: "ilog2 x = k" by (simp add: ilog2_def pq k_def Let_def)
    have lo: "(2::rat) powi k \<le> \<bar>x\<bar>"
      using True qr by (simp add: x pos_le_divide_eq mult.commute)
    have "of_int p < (2::rat) powi bitlen p" by (rule bp(2))
    also have "\<dots> = 2 powi (bitlen q - 1) * 2 powi (k + 1)"
      by (simp add: k_def flip: two)
    also have "\<dots> \<le> of_int q * 2 powi (k + 1)"
      using bq(1) by (intro mult_right_mono) simp_all
    finally have "\<bar>x\<bar> < 2 powi (k + 1)"
      using qr by (simp add: x pos_divide_less_eq mult.commute)
    with lo il show ?thesis by simp
  next
    case False
    then have il: "ilog2 x = k - 1" by (simp add: ilog2_def pq k_def Let_def)
    have hi: "\<bar>x\<bar> < (2::rat) powi k"
      using False qr by (simp add: x pos_divide_less_eq mult.commute not_le)
    have "of_int q * (2::rat) powi (k - 1) \<le> 2 powi bitlen q * 2 powi (k - 1)"
      using bq(2) by (intro mult_right_mono) simp_all
    also have "\<dots> = 2 powi (bitlen p - 1)"
      by (simp add: k_def flip: two)
    also have "\<dots> \<le> of_int p" by (rule bp(1))
    finally have "(2::rat) powi (k - 1) \<le> \<bar>x\<bar>"
      using qr by (simp add: x pos_le_divide_eq mult.commute)
    with hi il show ?thesis by simp
  qed
qed

lemma ilog2_unique:
  assumes "(2::rat) powi k \<le> \<bar>x\<bar>" and "\<bar>x\<bar> < 2 powi (k + 1)"
  shows "ilog2 x = k"
proof -
  have "0 < (2::rat) powi k" by (rule zero_less_power_int) simp
  have "x \<noteq> 0"
  proof
    assume "x = 0"
    with assms(1) have "(2::rat) powi k \<le> 0" by simp
    with \<open>0 < (2::rat) powi k\<close> show False by linarith
  qed
  from ilog2_bounds [OF this]
  have lo: "(2::rat) powi ilog2 x \<le> \<bar>x\<bar>" and hi: "\<bar>x\<bar> < 2 powi (ilog2 x + 1)" by auto
  have "(2::rat) powi k < 2 powi (ilog2 x + 1)" using assms(1) hi by simp
  then have a: "k < ilog2 x + 1"
    by (metis power_int_increasing not_le one_le_numeral)
  have "(2::rat) powi ilog2 x < 2 powi (k + 1)" using lo assms(2) by simp
  then have b: "ilog2 x < k + 1"
    by (metis power_int_increasing not_le one_le_numeral)
  from a b show ?thesis by simp
qed


lemma rhe_of_int: "rhe (of_int n) = n"
  by (simp add: rhe_def)

lemma rhe_between: "\<lfloor>y\<rfloor> \<le> rhe y \<and> rhe y \<le> \<lfloor>y\<rfloor> + 1"
  by (simp add: rhe_def Let_def)

lemma rhe_mono:
  assumes "x \<le> y"
  shows "rhe x \<le> rhe y"
proof (cases "\<lfloor>x\<rfloor> = \<lfloor>y\<rfloor>")
  case True
  with assms show ?thesis by (auto simp: rhe_def Let_def)
next
  case False
  with assms have "\<lfloor>x\<rfloor> + 1 \<le> \<lfloor>y\<rfloor>"
    using floor_mono [OF assms] by linarith
  with rhe_between [of x] rhe_between [of y] show ?thesis by linarith
qed

lemma ilog2_mono:
  assumes "0 < x" and "x \<le> y"
  shows "ilog2 x \<le> ilog2 y"
proof -
  have "(2::rat) powi ilog2 x \<le> \<bar>x\<bar>" using ilog2_bounds [of x] assms by simp
  also have "\<dots> \<le> \<bar>y\<bar>" using assms by simp
  also have "\<dots> < 2 powi (ilog2 y + 1)" using ilog2_bounds [of y] assms by simp
  finally have "ilog2 x < ilog2 y + 1"
    by (metis power_int_increasing not_le one_le_numeral)
  then show ?thesis by simp
qed

lemma two_powi_pos: "0 < (2::rat) powi e"
  by (rule zero_less_power_int) simp

lemma two_powi_add: "(2::rat) powi (a + b) = 2 powi a * 2 powi b"
  by (simp add: power_int_add)

lemma rnd_nonneg:
  assumes "0 \<le> x"
  shows "0 \<le> rnd x"
proof (cases "x = 0")
  case True
  then show ?thesis by (simp add: rnd_def)
next
  case False
  have "0 \<le> x / 2 powi fexp x" using assms two_powi_pos [of "fexp x"] by simp
  from rhe_mono [OF this] have "0 \<le> rhe (x / 2 powi fexp x)"
    using rhe_of_int [of 0] by simp
  then show ?thesis using False two_powi_pos [of "fexp x"] by (simp add: rnd_def)
qed

lemma of_int_two_power: "(of_int (2 ^ n) :: rat) = 2 powi int n"
  by (simp add: power_int_def)

lemma rhe_scaled_mono:
  assumes "a \<le> rhe u"
  shows "(of_int a :: rat) * 2 powi e \<le> of_int (rhe u) * 2 powi e"
proof -
  have "(of_int a :: rat) \<le> of_int (rhe u)" using assms by (simp only: of_int_le_iff)
  then show ?thesis using two_powi_pos [of e] by (intro mult_right_mono) simp_all
qed

lemma rhe_scaled_mono2:
  assumes "rhe u \<le> a"
  shows "(of_int (rhe u) :: rat) * 2 powi e \<le> of_int a * 2 powi e"
proof -
  have "(of_int (rhe u) :: rat) \<le> of_int a" using assms by (simp only: of_int_le_iff)
  then show ?thesis using two_powi_pos [of e] by (intro mult_right_mono) simp_all
qed

lemma rnd_upper:
  assumes "0 < x"
  shows "rnd x \<le> 2 powi (fexp x + 53)"
proof -
  let ?e = "fexp x"
  have "x < 2 powi (ilog2 x + 1)" using ilog2_bounds [of x] assms by simp
  also have "\<dots> \<le> 2 powi (53 + ?e)"
    by (rule power_int_increasing) (simp_all add: fexp_def)
  also have "\<dots> = 2 powi int 53 * 2 powi ?e" by (simp only: two_powi_add of_nat_numeral)
  also have "\<dots> = of_int (2 ^ 53) * 2 powi ?e" by (simp only: of_int_two_power)
  finally have "x / 2 powi ?e \<le> of_int (2 ^ 53)"
    using two_powi_pos [of ?e] by (simp only: pos_divide_le_eq)
  from rhe_mono [OF this] have "rhe (x / 2 powi ?e) \<le> 2 ^ 53"
    by (simp only: rhe_of_int)
  from rhe_scaled_mono2 [OF this, of ?e]
  have "rnd x \<le> of_int (2 ^ 53) * 2 powi ?e" using assms by (simp add: rnd_def)
  also have "\<dots> = 2 powi int 53 * 2 powi ?e" by (simp only: of_int_two_power)
  also have "\<dots> = 2 powi (?e + 53)" by (simp only: two_powi_add of_nat_numeral mult.commute)
  finally show ?thesis .
qed

lemma rnd_lower:
  assumes "0 < x" and "- 1074 < fexp x"
  shows "2 powi (fexp x + 52) \<le> rnd x"
proof -
  let ?e = "fexp x"
  have e: "ilog2 x = 52 + ?e" using assms(2) by (simp add: fexp_def max_def split: if_splits)
  have "of_int (2 ^ 52) * 2 powi ?e = 2 powi int 52 * (2::rat) powi ?e"
    by (simp only: of_int_two_power)
  also have "\<dots> = 2 powi ilog2 x" by (simp only: e two_powi_add of_nat_numeral)
  also have "\<dots> \<le> x" using ilog2_bounds [of x] assms by simp
  finally have "of_int (2 ^ 52) \<le> x / 2 powi ?e"
    using two_powi_pos [of ?e] by (simp only: pos_le_divide_eq)
  from rhe_mono [OF this] have "2 ^ 52 \<le> rhe (x / 2 powi ?e)"
    by (simp only: rhe_of_int)
  from rhe_scaled_mono [OF this, of ?e]
  have r: "of_int (2 ^ 52) * 2 powi ?e \<le> rnd x" using assms by (simp add: rnd_def)
  have "2 powi (?e + 52) = 2 powi int 52 * (2::rat) powi ?e"
    by (simp only: two_powi_add of_nat_numeral mult.commute)
  also have "\<dots> = of_int (2 ^ 52) * 2 powi ?e" by (simp only: of_int_two_power)
  also note r
  finally show ?thesis .
qed

lemma rnd_mono_nonneg:
  assumes "0 \<le> x" and "x \<le> y"
  shows "rnd x \<le> rnd y"
proof (cases "x = 0")
  case True
  then show ?thesis using rnd_nonneg [of y] assms by (simp add: rnd_def)
next
  case False
  then have x: "0 < x" and y: "0 < y" using assms by simp_all
  have le: "fexp x \<le> fexp y" using ilog2_mono [OF x assms(2)] by (simp add: fexp_def)
  show ?thesis
  proof (cases "fexp x = fexp y")
    case True
    have "x / 2 powi fexp y \<le> y / 2 powi fexp y"
      using assms(2) two_powi_pos [of "fexp y"] by (simp add: divide_right_mono)
    from rhe_scaled_mono [OF rhe_mono [OF this], of "fexp y"]
    show ?thesis using x y True by (simp add: rnd_def)
  next
    case False
    with le have lt: "fexp x + 1 \<le> fexp y" by simp
    have "- 1074 \<le> fexp x" by (simp add: fexp_def)
    with lt have "- 1074 < fexp y" by simp
    have "rnd x \<le> 2 powi (fexp x + 53)" by (rule rnd_upper [OF x])
    also have "\<dots> \<le> 2 powi (fexp y + 52)"
      by (rule power_int_increasing) (use lt in simp_all)
    also have "\<dots> \<le> rnd y" by (rule rnd_lower [OF y \<open>- 1074 < fexp y\<close>])
    finally show ?thesis .
  qed
qed


lemma two_powi_le_nz:
  assumes "(2::rat) powi k \<le> \<bar>x\<bar>"
  shows "x \<noteq> 0"
proof
  assume "x = 0"
  with assms have "(2::rat) powi k \<le> 0" by simp
  with two_powi_pos [of k] show False by linarith
qed

lemma rhe_eqI:
  assumes "\<bar>y - of_int m\<bar> < 1/2"
  shows "rhe y = m"
proof -
  have lo: "of_int m - 1/2 < y" and hi: "y < of_int m + 1/2" using assms by linarith+
  have "\<lfloor>y\<rfloor> = m \<or> \<lfloor>y\<rfloor> = m - 1" using lo hi by linarith
  then show ?thesis
  proof
    assume f: "\<lfloor>y\<rfloor> = m"
    then show ?thesis using hi by (simp add: rhe_def Let_def)
  next
    assume f: "\<lfloor>y\<rfloor> = m - 1"
    then show ?thesis using lo by (simp add: rhe_def Let_def)
  qed
qed

lemma fexp_eqI:
  assumes "(2::rat) powi (e + 52) \<le> \<bar>x\<bar>" and "\<bar>x\<bar> < 2 powi (e + 53)" and "- 1074 \<le> e"
  shows "fexp x = e"
proof -
  have "ilog2 x = e + 52" using assms(1,2) by (intro ilog2_unique) (simp_all add: add.assoc)
  then show ?thesis using assms(3) by (simp add: fexp_def)
qed

lemma rnd_eqI:
  assumes "(2::rat) powi (e + 52) \<le> \<bar>x\<bar>" and "\<bar>x\<bar> < 2 powi (e + 53)" and "- 1074 \<le> e"
    and "rhe (x / 2 powi e) = m"
  shows "rnd x = of_int m * 2 powi e"
proof -
  have "x \<noteq> 0" using assms(1) by (rule two_powi_le_nz)
  then show ?thesis using fexp_eqI [OF assms(1-3)] assms(4) by (simp add: rnd_def)
qed

lemma rnd_fixI:
  assumes "fexp r \<le> e" and "r = of_int m * 2 powi e"
  shows "rnd r = r"
proof (cases "r = 0")
  case True
  then show ?thesis by (simp add: rnd_def)
next
  case False
  define n where "n = nat (e - fexp r)"
  have e: "e = int n + fexp r" using assms(1) by (simp add: n_def)
  have "(2::rat) powi e = 2 powi (int n + fexp r)" using e by simp
  then have "r = of_int m * (2 powi int n * 2 powi fexp r)"
    by (simp only: assms(2) two_powi_add)
  also have "\<dots> = of_int (m * 2 ^ n) * 2 powi fexp r"
    by (simp add: power_int_def)
  finally have r: "r = of_int (m * 2 ^ n) * 2 powi fexp r" .
  have "r / 2 powi fexp r = of_int (m * 2 ^ n)"
    using two_powi_pos [of "fexp r"] by (subst r) simp
  then have "rhe (r / 2 powi fexp r) = m * 2 ^ n" by (simp only: rhe_of_int)
  then have "rnd r = of_int (m * 2 ^ n) * 2 powi fexp r" using False by (simp add: rnd_def)
  with r show ?thesis by simp
qed

lemma ilog2_less:
  assumes "x \<noteq> 0" and "\<bar>x\<bar> < 2 powi k"
  shows "ilog2 x < k"
proof -
  have "(2::rat) powi ilog2 x \<le> \<bar>x\<bar>" using ilog2_bounds [OF assms(1)] by simp
  also note assms(2)
  finally show ?thesis by (metis power_int_increasing not_le one_le_numeral)
qed

lemma rnd_of_int:
  assumes "\<bar>n\<bar> < 2 ^ 53"
  shows "rnd (of_int n) = of_int n"
proof (cases "n = 0")
  case True
  then show ?thesis by (simp add: rnd_def)
next
  case False
  have "(of_int \<bar>n\<bar> :: rat) < of_int (2 ^ 53)" using assms by (simp only: of_int_less_iff)
  then have "\<bar>of_int n :: rat\<bar> < 2 powi 53" by (simp add: of_int_two_power)
  from ilog2_less [OF _ this] False have "ilog2 (of_int n) < 53" by simp
  then have "fexp (of_int n) \<le> 0" by (simp add: fexp_def)
  then show ?thesis by (rule rnd_fixI) simp
qed


lemma rnd_fix_small:
  assumes "r = of_int m * 2 powi e" and "\<bar>m\<bar> < 2 ^ 53" and "- 1074 \<le> e"
  shows "rnd r = r"
proof (cases "r = 0")
  case True
  then show ?thesis by (simp add: rnd_def)
next
  case False
  have "(of_int \<bar>m\<bar> :: rat) < of_int (2 ^ 53)" using assms(2) by (simp only: of_int_less_iff)
  then have "\<bar>of_int m :: rat\<bar> < 2 powi int 53" by (simp add: of_int_two_power)
  then have "\<bar>of_int m :: rat\<bar> * 2 powi e < 2 powi int 53 * 2 powi e"
    using two_powi_pos [of e] by (simp only: mult_less_cancel_right_pos)
  then have "\<bar>r\<bar> < 2 powi (e + 53)"
    using two_powi_pos [of e]
    by (simp add: assms(1) abs_mult two_powi_add mult.commute)
  from ilog2_less [OF False this] have "fexp r \<le> e" using assms(3) by (simp add: fexp_def)
  then show ?thesis using assms(1) by (rule rnd_fixI)
qed

lemma rnd_fix:
  assumes "r = of_int m * 2 powi e" and "\<bar>m\<bar> \<le> 2 ^ 53" and "- 1074 \<le> e"
  shows "rnd r = r"
proof (cases "\<bar>m\<bar> < 2 ^ 53")
  case True
  with assms show ?thesis by (intro rnd_fix_small [of r m e])
next
  case False
  with assms(2) have m: "m = 2 ^ 53 \<or> m = - (2 ^ 53)" by linarith
  have "(2::rat) powi (e + 1) = 2 * 2 powi e" by (simp add: two_powi_add)
  with m have "r = of_int (m div 2) * 2 powi (e + 1)"
    by (auto simp: assms(1))
  moreover have "\<bar>m div 2\<bar> < 2 ^ 53" using m by auto
  moreover have "- 1074 \<le> e + 1" using assms(3) by simp
  ultimately show ?thesis by (rule rnd_fix_small)
qed

lemma rhe_abs_le:
  assumes "\<bar>u\<bar> \<le> of_int n"
  shows "\<bar>rhe u\<bar> \<le> n"
proof -
  have a: "u \<le> of_int n" using assms by linarith
  have b: "of_int (- n) \<le> u" using assms by simp
  from rhe_mono [OF a] rhe_mono [OF b] show ?thesis
    unfolding rhe_of_int by linarith
qed

lemma rnd_mantissa:
  assumes "x \<noteq> 0"
  shows "\<bar>rhe (x / 2 powi fexp x)\<bar> \<le> 2 ^ 53"
proof (rule rhe_abs_le)
  let ?e = "fexp x"
  have "\<bar>x\<bar> < 2 powi (ilog2 x + 1)" using ilog2_bounds [OF assms] by simp
  also have "\<dots> \<le> 2 powi (53 + ?e)"
    by (rule power_int_increasing) (simp_all add: fexp_def)
  also have "\<dots> = 2 powi int 53 * 2 powi ?e" by (simp only: two_powi_add of_nat_numeral)
  also have "\<dots> = of_int (2 ^ 53) * 2 powi ?e" by (simp only: of_int_two_power)
  finally have "\<bar>x\<bar> / 2 powi ?e \<le> of_int (2 ^ 53)"
    using two_powi_pos [of ?e] by (simp only: pos_divide_le_eq)
  then show "\<bar>x / 2 powi ?e\<bar> \<le> of_int (2 ^ 53)"
    using two_powi_pos [of ?e] by (simp add: abs_divide)
qed

lemma rnd_idem: "rnd (rnd x) = rnd x"
proof (cases "x = 0")
  case True
  then show ?thesis by (simp add: rnd_def)
next
  case False
  have "rnd x = of_int (rhe (x / 2 powi fexp x)) * 2 powi fexp x"
    using False by (simp add: rnd_def)
  moreover note rnd_mantissa [OF False]
  moreover have "- 1074 \<le> fexp x" by (simp add: fexp_def)
  ultimately show ?thesis by (rule rnd_fix)
qed

subsection \<open>Properties of the operations\<close>

lemma fl_cases:
  "fl x = (if 2 ^ 1024 \<le> rnd x then PInf else if rnd x \<le> - (2 ^ 1024) then NInf else Num (rnd x))"
  by (simp add: fl_def Let_def)

lemma fl_rnd_fixed:
  assumes "fl x = Num r"
  shows "fl r = Num r"
  using assms by (auto simp: fl_def Let_def rnd_idem split: if_splits)

lemma fl_nonneg:
  assumes "0 \<le> x"
  shows "jle (Num 0) (fl x)"
proof -
  have "0 \<le> rnd x" using assms by (rule rnd_nonneg)
  then show ?thesis by (simp add: fl_def Let_def)
qed

lemma fl_mono_nonneg:
  assumes "0 \<le> x" and "x \<le> y"
  shows "jle (fl x) (fl y)"
proof -
  have "rnd x \<le> rnd y" using assms by (rule rnd_mono_nonneg)
  moreover have "0 \<le> rnd x" using assms(1) by (rule rnd_nonneg)
  ultimately show ?thesis by (simp add: fl_def Let_def)
qed

lemma fl_of_int:
  assumes "\<bar>n\<bar> < 2 ^ 53"
  shows "fl (of_int n) = Num (of_int n)"
proof -
  have r: "rnd (of_int n) = of_int n" using assms by (rule rnd_of_int)
  have "\<bar>n\<bar> < 2 ^ 1024" using assms by (rule less_trans) simp
  then have "(of_int \<bar>n\<bar> :: rat) < of_int (2 ^ 1024)" by (simp only: of_int_less_iff)
  then have "\<bar>of_int n :: rat\<bar> < 2 ^ 1024" by simp
  then show ?thesis by (simp add: fl_def r Let_def abs_less_iff not_le less_imp_le)
qed

lemma fl_numeral:
  assumes "(numeral k :: int) < 2 ^ 53"
  shows "fl (numeral k) = Num (numeral k)"
  using fl_of_int [of "numeral k"] assms by simp

lemma fl_zero: "fl 0 = Num 0"
  by (simp add: fl_def rnd_def)

lemma isDouble_fl: "isDouble (fl x)"
  by (cases "fl x") (auto dest: fl_rnd_fixed)

lemma isDouble_jadd: "isDouble (jadd x y)"
  by (cases "(x, y)" rule: jadd.cases) (simp_all add: isDouble_fl)

lemma nonneg_jadd:
  assumes "jle (Num 0) x" and "jle (Num 0) y"
  shows "jle (Num 0) (jadd x y)"
  using assms by (cases "(x, y)" rule: jadd.cases) (simp_all add: fl_nonneg)

lemma jle_trans:
  assumes "jle x y" and "jle y z"
  shows "jle x z"
  using assms by (cases x; cases y; cases z) simp_all

lemma fl_not_NaN: "fl x \<noteq> NaN"
  by (simp add: fl_def Let_def)

lemma jle_PInf: "v \<noteq> NaN \<Longrightarrow> jle v PInf"
  by (cases v) simp_all

lemma jadd_mono_left:
  assumes "jle (Num 0) x" and "jle x y" and "jle (Num 0) p"
  shows "jle (jadd x p) (jadd y p)"
proof (cases p)
  case (Num q)
  show ?thesis
  proof (cases x)
    case x: (Num a)
    show ?thesis
    proof (cases y)
      case y: (Num b)
      have "0 \<le> a + q" and "a + q \<le> b + q" using assms by (simp_all add: x y Num)
      then show ?thesis by (simp add: x y Num fl_mono_nonneg)
    qed (use assms in \<open>simp_all add: x Num jle_PInf fl_not_NaN\<close>)
  qed (use assms in \<open>cases y; simp add: Num\<close>)+
qed (use assms in \<open>cases x; cases y; simp\<close>)+

lemma jadd_increasing:
  assumes "jle (Num 0) t" and "isDouble t" and "jle (Num 0) p"
  shows "jle t (jadd t p)"
proof (cases t)
  case t: (Num b)
  show ?thesis
  proof (cases p)
    case (Num q)
    have "0 \<le> b" and "b \<le> b + q" using assms by (simp_all add: t Num)
    from fl_mono_nonneg [OF this] show ?thesis using assms(2) by (simp add: t Num)
  qed (use assms in \<open>simp_all add: t\<close>)
qed (use assms in \<open>cases p; simp\<close>)+


subsection \<open>Evaluating and bounding the rounding\<close>

lemma fl_eqI:
  assumes "(2::rat) powi (e + 52) \<le> \<bar>x\<bar>" and "\<bar>x\<bar> < 2 powi (e + 53)" and "- 1074 \<le> e"
    and "\<bar>x / 2 powi e - of_int m\<bar> < 1/2" and "r = of_int m * 2 powi e" and "\<bar>r\<bar> < 2 ^ 1024"
  shows "fl x = Num r"
proof -
  have "rnd x = r"
    using rnd_eqI [OF assms(1-3) rhe_eqI [OF assms(4)]] assms(5) by simp
  then show ?thesis using assms(6) by (simp add: fl_def Let_def abs_less_iff not_le less_imp_le)
qed

lemma fl_one: "fl 1 = Num 1"
  using fl_of_int [of 1] by simp

lemma rhe_error: "\<bar>of_int (rhe y) - y\<bar> \<le> 1/2"
proof -
  have "of_int \<lfloor>y\<rfloor> \<le> y" and "y < of_int \<lfloor>y\<rfloor> + 1" by linarith+
  then show ?thesis by (auto simp: rhe_def Let_def abs_le_iff)
qed

lemma rnd_error: "\<bar>rnd x - x\<bar> \<le> 2 powi fexp x / 2"
proof (cases "x = 0")
  case True
  then show ?thesis using two_powi_pos [of "fexp 0"] by (simp add: rnd_def)
next
  case False
  let ?p = "(2::rat) powi fexp x"
  have p: "0 < ?p" by (rule two_powi_pos)
  have "rnd x - x = (of_int (rhe (x / ?p)) - x / ?p) * ?p"
    using False p by (simp add: rnd_def algebra_simps)
  then have "\<bar>rnd x - x\<bar> = \<bar>of_int (rhe (x / ?p)) - x / ?p\<bar> * ?p"
    using p by (simp add: abs_mult)
  also have "\<dots> \<le> 1/2 * ?p"
    using rhe_error [of "x / ?p"] p by (intro mult_right_mono) simp_all
  finally show ?thesis by simp
qed

lemma fexp_le:
  assumes "x \<noteq> 0" and "\<bar>x\<bar> < 2 powi k" and "- 1021 \<le> k"
  shows "fexp x \<le> k - 53"
  using ilog2_less [OF assms(1,2)] assms(3) by (simp add: fexp_def)

lemma rnd_error_below:
  assumes "\<bar>x\<bar> < 2 powi k" and "- 1021 \<le> k"
  shows "\<bar>rnd x - x\<bar> \<le> 2 powi (k - 54)"
proof (cases "x = 0")
  case True
  then show ?thesis using two_powi_pos [of "k - 54"] by (simp add: rnd_def)
next
  case False
  have "fexp x \<le> k - 53" using False assms by (rule fexp_le)
  then have "(2::rat) powi fexp x \<le> 2 powi (k - 53)"
    by (rule power_int_increasing) simp
  also have "\<dots> = 2 * 2 powi (k - 54)"
    using two_powi_add [of 1 "k - 54"] by simp
  finally show ?thesis using rnd_error [of x] by simp
qed

lemma rnd_one: "rnd 1 = 1"
  using rnd_of_int [of 1] by simp

lemma rnd_hundred: "rnd 100 = 100"
  using rnd_of_int [of 100] by simp

lemma near_round:
  fixes x :: rat
  assumes "\<bar>of_int n - x\<bar> \<le> 1/2 + e" and "\<forall>k. e < \<bar>x - (of_int k + 1/2)\<bar>"
  shows "n = round x"
proof -
  define m where "m = round x"
  have m1: "of_int m \<le> x + 1/2" and m2: "x + 1/2 < of_int m + 1"
    unfolding m_def round_def by linarith+
  have lo: "x - 1/2 - e \<le> of_int n" and hi: "of_int n \<le> x + 1/2 + e"
    using assms(1) by linarith+
  have "\<not> m + 1 \<le> n"
  proof
    assume "m + 1 \<le> n"
    then have "(of_int (m + 1) :: rat) \<le> of_int n" by (simp only: of_int_le_iff)
    then have "\<bar>x - (of_int m + 1/2)\<bar> \<le> e" using hi m2 by simp
    moreover from assms(2) have "e < \<bar>x - (of_int m + 1/2)\<bar>" by blast
    ultimately show False by linarith
  qed
  moreover have "\<not> n \<le> m - 1"
  proof
    assume "n \<le> m - 1"
    then have "(of_int n :: rat) \<le> of_int (m - 1)" by (simp only: of_int_le_iff)
    then have "\<bar>x - (of_int (m - 1) + 1/2)\<bar> \<le> e" using lo m1 by simp
    moreover from assms(2) have "e < \<bar>x - (of_int (m - 1) + 1/2)\<bar>" by blast
    ultimately show False by linarith
  qed
  ultimately show ?thesis unfolding m_def by linarith
qed


section \<open>Sprint details: histograms and story points\<close>

text \<open>
  What \<open>getSprintDetails\<close> reads of an issue: \<open>fields.status.name\<close>,
  \<open>fields.issuetype.name\<close> and the story points field \<open>fields.customfield_10016\<close>,
  which is a number or absent. Strings are the UTF-8 bytes of the text.
\<close>

record issue =
  status_name :: string
  issuetype_name :: string
  customfield_10016 :: "jsnum option"

text \<open>\<open>issue.fields.customfield_10016 || 0\<close>: an absent, zero or NaN field counts 0.\<close>

definition storyPointsOf :: "issue \<Rightarrow> jsnum" where
  "storyPointsOf i =
     (case customfield_10016 i of
        None \<Rightarrow> Num 0
      | Some v \<Rightarrow> if truthy v then v else Num 0)"

definition doneStatuses :: "string list" where
  "doneStatuses =
     [''Done'', ''Closed'', ''Resolved'', ''Completed'', ''Finalizado'',
      ''Conclu'' @ [CHR 0xC3, CHR 0xAD] @ ''do'']"

subsection \<open>Plain objects used as histograms\<close>

text \<open>
  \<open>statusCounts\<close> and \<open>typeCounts\<close> start as the object literal \<open>{}\<close>, whose prototype
  is \<open>Object.prototype\<close>. An object is modelled by the list of its own properties in
  insertion order. Reading a key that is not an own property finds the property of
  \<open>Object.prototype\<close> of that name, if there is one: a built-in function, or for
  \<open>__proto__\<close> the prototype object itself. A value is \<open>undefined\<close>, a count, a
  built-in object, or the text that \<open>+ 1\<close> makes of a value that is not a number.
  An array holds fewer than \<open>2 ^ 32\<close> elements, so a count stays in the range where
  adding 1 to a double is exact: counts are natural numbers.
\<close>

datatype jsval = Undefined | Count nat | Text | Builtin

type_synonym jsobject = "(string \<times> jsval) list"

definition objectPrototypeKeys :: "string list" where
  "objectPrototypeKeys =
     [''constructor'', ''__defineGetter__'', ''__defineSetter__'', ''hasOwnProperty'',
      ''__lookupGetter__'', ''__lookupSetter__'', ''isPrototypeOf'',
      ''propertyIsEnumerable'', ''toString'', ''valueOf'', ''__proto__'',
      ''toLocaleString'']"

definition getProp :: "jsobject \<Rightarrow> string \<Rightarrow> jsval" where
  "getProp obj k =
     (case map_of obj k of
        Some v \<Rightarrow> v
      | None \<Rightarrow> if k \<in> set objectPrototypeKeys then Builtin else Undefined)"

text \<open>\<open>(v || 0) + 1\<close>; a text made by \<open>+ 1\<close> is never empty, so it is truthy.\<close>

fun orZeroPlusOne :: "jsval \<Rightarrow> jsval" where
  "orZeroPlusOne Undefined = Count 1"
| "orZeroPlusOne (Count n) = Count (n + 1)"
| "orZeroPlusOne Text = Text"
| "orZeroPlusOne Builtin = Text"

fun putOwn :: "string \<Rightarrow> jsval \<Rightarrow> jsobject \<Rightarrow> jsobject" where
  "putOwn k v [] = [(k, v)]"
| "putOwn k v (p # ps) = (if fst p = k then (k, v) # ps else p # putOwn k v ps)"

text \<open>
  \<open>obj[k] = v\<close> for a count or a text \<open>v\<close>: the key \<open>__proto__\<close> reaches the setter of
  \<open>Object.prototype\<close>, which ignores a value that is not an object; any other key
  becomes or stays an own property.
\<close>

definition setProp :: "jsobject \<Rightarrow> string \<Rightarrow> jsval \<Rightarrow> jsobject" where
  "setProp obj k v = (if k = ''__proto__'' then obj else putOwn k v obj)"

text \<open>\<open>counts[k] = (counts[k] || 0) + 1\<close>\<close>

definition countUp :: "jsobject \<Rightarrow> string \<Rightarrow> jsobject" where
  "countUp obj k = setProp obj k (orZeroPlusOne (getProp obj k))"

subsection \<open>The loop over the issues\<close>

record tally =
  statusCounts :: jsobject
  typeCounts :: jsobject
  completedPoints :: jsnum
  totalPoints :: jsnum

definition emptyTally :: tally where
  "emptyTally = \<lparr>statusCounts = [], typeCounts = [], completedPoints = Num 0, totalPoints = Num 0\<rparr>"

definition tallyIssue :: "tally \<Rightarrow> issue \<Rightarrow> tally" where
  "tallyIssue t i =
     (let status = status_name i;
          type = issuetype_name i;
          storyPoints = storyPointsOf i
      in \<lparr>statusCounts = countUp (statusCounts t) status,
          typeCounts = countUp (typeCounts t) type,
          completedPoints =
            (if status \<in> set doneStatuses then jadd (completedPoints t) storyPoints
             else completedPoints t),
          totalPoints = jadd (totalPoints t) storyPoints\<rparr>)"

definition tallyIssues :: "issue list \<Rightarrow> tally" where
  "tallyIssues issues = foldl tallyIssue emptyTally issues"

text \<open>\<open>totalPoints > 0 ? Math.round((completedPoints / totalPoints) * 100) : 0\<close>\<close>

definition percentOf :: "jsnum \<Rightarrow> jsnum \<Rightarrow> jsnum" where
  "percentOf completedPts totalPts =
     (if jless (Num 0) totalPts then jround (jmul (jdiv completedPts totalPts) (Num 100))
      else Num 0)"

text \<open>The \<open>issues\<close> and \<open>progress\<close> parts of the object that \<open>getSprintDetails\<close> returns.\<close>

record aggregated =
  issues_total :: nat
  issues_byStatus :: jsobject
  issues_byType :: jsobject
  progress_completedPoints :: jsnum
  progress_totalPoints :: jsnum
  progress_percentComplete :: jsnum

definition aggregate :: "issue list \<Rightarrow> aggregated" where
  "aggregate issues =
     (let t = tallyIssues issues
      in \<lparr>issues_total = length issues,
          issues_byStatus = statusCounts t,
          issues_byType = typeCounts t,
          progress_completedPoints = completedPoints t,
          progress_totalPoints = totalPoints t,
          progress_percentComplete = percentOf (completedPoints t) (totalPoints t)\<rparr>)"

subsection \<open>Which issues count as completed\<close>

lemma tallyIssues_snoc: "tallyIssues (issues @ [i]) = tallyIssue (tallyIssues issues) i"
  by (simp add: tallyIssues_def)

lemma foldl_tallyIssue_points:
  "totalPoints (foldl tallyIssue t issues) = foldl jadd (totalPoints t) (map storyPointsOf issues)
   \<and> completedPoints (foldl tallyIssue t issues) =
       foldl jadd (completedPoints t)
         (map storyPointsOf (filter (\<lambda>i. status_name i \<in> set doneStatuses) issues))"
  by (induction issues arbitrary: t) (simp_all add: tallyIssue_def Let_def)

text \<open>
  Claim C2. Processing one more issue adds its story points (0 when the field is absent)
  to \<open>totalPoints\<close>, and to \<open>completedPoints\<close> exactly when its status is, byte for byte,
  one of Done, Closed, Resolved, Completed, Finalizado, Conclu\'ido; otherwise
  \<open>completedPoints\<close> is left as it was. Over the whole list, \<open>totalPoints\<close> is the
  left-to-right sum of all story points and \<open>completedPoints\<close> that of the issues with
  one of the six statuses.
\<close>

theorem completed_points_done_statuses:
  "progress_totalPoints (aggregate (issues @ [i])) =
     jadd (progress_totalPoints (aggregate issues))
       (case customfield_10016 i of None \<Rightarrow> Num 0 | Some v \<Rightarrow> if truthy v then v else Num 0)
   \<and> progress_completedPoints (aggregate (issues @ [i])) =
     (if status_name i \<in>
           {''Done'', ''Closed'', ''Resolved'', ''Completed'', ''Finalizado'',
            ''Conclu'' @ [CHR 0xC3, CHR 0xAD] @ ''do''}
      then jadd (progress_completedPoints (aggregate issues))
             (case customfield_10016 i of None \<Rightarrow> Num 0 | Some v \<Rightarrow> if truthy v then v else Num 0)
      else progress_completedPoints (aggregate issues))
   \<and> progress_totalPoints (aggregate issues) = foldl jadd (Num 0) (map storyPointsOf issues)
   \<and> progress_completedPoints (aggregate issues) =
       foldl jadd (Num 0)
         (map storyPointsOf (filter (\<lambda>i. status_name i \<in> set doneStatuses) issues))"
proof -
  have step: "tallyIssues (issues @ [i]) = tallyIssue (tallyIssues issues) i"
    by (rule tallyIssues_snoc)
  have sums: "totalPoints (tallyIssues issues) = foldl jadd (Num 0) (map storyPointsOf issues)
    \<and> completedPoints (tallyIssues issues) =
       foldl jadd (Num 0)
         (map storyPointsOf (filter (\<lambda>i. status_name i \<in> set doneStatuses) issues))"
    using foldl_tallyIssue_points [of emptyTally issues]
    by (simp add: tallyIssues_def emptyTally_def)
  show ?thesis
    using sums
    by (simp add: aggregate_def Let_def step tallyIssue_def storyPointsOf_def doneStatuses_def)
qed

subsection \<open>Completed points never exceed total points\<close>

lemma tally_points_le:
  assumes "\<forall>i\<in>set issues. jle (Num 0) (storyPointsOf i)"
    and "jle (Num 0) (completedPoints t)" and "jle (completedPoints t) (totalPoints t)"
    and "isDouble (totalPoints t)"
  shows "jle (completedPoints (foldl tallyIssue t issues)) (totalPoints (foldl tallyIssue t issues))"
  using assms
proof (induction issues arbitrary: t)
  case Nil
  then show ?case by simp
next
  case (Cons i issues)
  let ?p = "storyPointsOf i"
  have p: "jle (Num 0) ?p" using Cons.prems(1) by simp
  have t0: "jle (Num 0) (totalPoints t)"
    using Cons.prems(2,3) by (rule jle_trans)
  show ?case
  proof (cases "status_name i \<in> set doneStatuses")
    case True
    have "jle (Num 0) (completedPoints (tallyIssue t i))"
      using True Cons.prems(2) p by (simp add: tallyIssue_def Let_def nonneg_jadd)
    moreover have "jle (completedPoints (tallyIssue t i)) (totalPoints (tallyIssue t i))"
      using True jadd_mono_left [OF Cons.prems(2,3) p] by (simp add: tallyIssue_def Let_def)
    moreover have "isDouble (totalPoints (tallyIssue t i))"
      by (simp add: tallyIssue_def Let_def isDouble_jadd)
    ultimately show ?thesis using Cons.IH [of "tallyIssue t i"] Cons.prems(1) by simp
  next
    case False
    have "jle (Num 0) (completedPoints (tallyIssue t i))"
      using False Cons.prems(2) by (simp add: tallyIssue_def Let_def)
    moreover have "jle (completedPoints (tallyIssue t i)) (totalPoints (tallyIssue t i))"
      using False jle_trans [OF Cons.prems(3) jadd_increasing [OF t0 Cons.prems(4) p]]
      by (simp add: tallyIssue_def Let_def)
    moreover have "isDouble (totalPoints (tallyIssue t i))"
      by (simp add: tallyIssue_def Let_def isDouble_jadd)
    ultimately show ?thesis using Cons.IH [of "tallyIssue t i"] Cons.prems(1) by simp
  qed
qed

text \<open>
  Claim C9. When the story points of every issue (0 for an absent field) are not
  negative, the loop ends with \<open>completedPoints <= totalPoints\<close>. The sums are sums
  of doubles: the proof uses that rounding is monotone and leaves a double unchanged.
\<close>

theorem completed_le_total:
  assumes "\<forall>i\<in>set issues. jle (Num 0) (storyPointsOf i)"
  shows "jle (progress_completedPoints (aggregate issues)) (progress_totalPoints (aggregate issues))"
proof -
  have "jle (completedPoints (foldl tallyIssue emptyTally issues))
          (totalPoints (foldl tallyIssue emptyTally issues))"
    using assms by (rule tally_points_le) (simp_all add: emptyTally_def fl_zero)
  then show ?thesis by (simp add: aggregate_def Let_def tallyIssues_def)
qed

text \<open>The scenario of two issues, one done with 5 points and one in progress with 3.\<close>

definition twoIssues :: "issue list" where
  "twoIssues =
     [\<lparr>status_name = ''Done'', issuetype_name = ''Story'', customfield_10016 = Some (Num 5)\<rparr>,
      \<lparr>status_name = ''In Progress'', issuetype_name = ''Bug'', customfield_10016 = Some (Num 3)\<rparr>]"

lemma aggregate_twoIssues_points:
  "progress_completedPoints (aggregate twoIssues) = Num 5
   \<and> progress_totalPoints (aggregate twoIssues) = Num 8"
  by (simp add: aggregate_def Let_def tallyIssues_def twoIssues_def tallyIssue_def emptyTally_def
      storyPointsOf_def doneStatuses_def fl_numeral)

theorem completed_le_total_witness:
  "jle (progress_completedPoints (aggregate twoIssues)) (progress_totalPoints (aggregate twoIssues))
   \<and> progress_completedPoints (aggregate twoIssues) = Num 5
   \<and> progress_totalPoints (aggregate twoIssues) = Num 8"
proof -
  have h: "\<forall>i\<in>set twoIssues. jle (Num 0) (storyPointsOf i)"
    by (simp add: twoIssues_def storyPointsOf_def)
  show ?thesis using completed_le_total [OF h] aggregate_twoIssues_points by simp
qed


subsection \<open>The percentage of completed points\<close>

lemma percent_bounds:
  assumes "0 \<le> c" and "c \<le> t" and "0 < t"
  shows "\<exists>n. percentOf (Num c) (Num t) = Num (of_int n) \<and> 0 \<le> n \<and> n \<le> 100
    \<and> \<bar>of_int n - 100 * c / t\<bar> \<le> 1/2 + 1 / 2 ^ 46"
proof -
  define q where "q = c / t"
  define r1 where "r1 = rnd q"
  define r2 where "r2 = rnd (r1 * 100)"
  have q: "0 \<le> q" "q \<le> 1" using assms by (simp_all add: q_def)
  have r1: "0 \<le> r1" "r1 \<le> 1"
    using rnd_nonneg [OF q(1)] rnd_mono_nonneg [OF q] by (simp_all add: r1_def rnd_one)
  have e1: "\<bar>r1 - q\<bar> \<le> 1 / 2 ^ 54"
  proof (cases "q = 1")
    case True
    then show ?thesis by (simp add: r1_def rnd_one)
  next
    case False
    with q have "\<bar>q\<bar> < 2 powi 0" by simp
    from rnd_error_below [OF this] show ?thesis
      by (simp add: r1_def power_int_minus divide_simps)
  qed
  have y: "0 \<le> r1 * 100" "r1 * 100 \<le> 100" using r1 by simp_all
  have r2: "0 \<le> r2" "r2 \<le> 100"
    using rnd_nonneg [OF y(1)] rnd_mono_nonneg [OF y] by (simp_all add: r2_def rnd_hundred)
  have "\<bar>r1 * 100\<bar> < 2 powi 7" using y by simp
  from rnd_error_below [OF this] have e2: "\<bar>r2 - r1 * 100\<bar> \<le> 1 / 2 ^ 47"
    by (simp add: r2_def power_int_minus divide_simps)
  have f1: "fl q = Num r1"
    using r1 by (simp add: fl_def Let_def r1_def)
  have f2: "fl (r1 * 100) = Num r2"
    using r2 by (simp add: fl_def Let_def r2_def)
  define n where "n = \<lfloor>r2 + 1/2\<rfloor>"
  have pc: "percentOf (Num c) (Num t) = Num (of_int n)"
    using assms(3) f1 f2 by (simp add: percentOf_def q_def n_def)
  have n1: "of_int n \<le> r2 + 1/2" and n2: "r2 + 1/2 < of_int n + 1"
    unfolding n_def by linarith+
  have "0 \<le> n" using r2(1) by (simp add: n_def)
  moreover have "n \<le> 100"
  proof -
    have "r2 + 1/2 < 101" using r2(2) by simp
    then have "n < 101" unfolding n_def by (simp add: floor_less_iff)
    then show ?thesis by simp
  qed
  moreover have "\<bar>of_int n - 100 * c / t\<bar> \<le> 1/2 + 1 / 2 ^ 46"
  proof -
    have "100 * c / t = 100 * q" by (simp add: q_def)
    moreover have "\<bar>r2 - 100 * q\<bar> \<le> 1 / 2 ^ 46"
    proof -
      have "r2 - 100 * q = (r2 - r1 * 100) + 100 * (r1 - q)" by simp
      then have a: "\<bar>r2 - 100 * q\<bar> \<le> \<bar>r2 - r1 * 100\<bar> + \<bar>100 * (r1 - q)\<bar>"
        by (simp only: abs_triangle_ineq)
      have b: "\<bar>100 * (r1 - q)\<bar> = 100 * \<bar>r1 - q\<bar>" by (simp only: abs_mult abs_numeral)
      have c: "100 * \<bar>r1 - q\<bar> \<le> 100 * (1 / 2 ^ 54)" using e1 by simp
      have d: "1 / 2 ^ 47 + 100 * (1 / 2 ^ 54) \<le> (1::rat) / 2 ^ 46" by simp
      show ?thesis using a b c d e2 by linarith
    qed
    moreover have "\<bar>of_int n - r2\<bar> \<le> 1/2" using n1 n2 by linarith
    ultimately show ?thesis by linarith
  qed
  ultimately show ?thesis using pc by blast
qed


lemma aggregate_Nil:
  "aggregate [] =
     \<lparr>issues_total = 0, issues_byStatus = [], issues_byType = [],
      progress_completedPoints = Num 0, progress_totalPoints = Num 0,
      progress_percentComplete = Num 0\<rparr>"
  by (simp add: aggregate_def Let_def tallyIssues_def emptyTally_def percentOf_def)

text \<open>
  Claim C1, as amended. \<open>percentComplete\<close> is \<open>Math.round\<close> of the double
  \<open>(completedPoints / totalPoints) * 100\<close>, the quotient rounded to a double before it is
  multiplied and the product rounded again, when \<open>totalPoints > 0\<close>, and 0 otherwise.
  For \<open>0 \<le> completedPoints \<le> totalPoints\<close> it is an integer from 0 to 100 within
  \<open>1/2 + 1 / 2 ^ 46\<close> of the exact \<open>100 * completedPoints / totalPoints\<close>, and it is
  \<open>round\<close> of that exact value unless the value lies within \<open>1 / 2 ^ 46\<close> of a tie
  \<open>k + 1/2\<close>. The empty list gives empty histograms, zero points and 0 percent.
\<close>

theorem percentComplete_in_doubles:
  "progress_percentComplete (aggregate issues) =
     (if jless (Num 0) (progress_totalPoints (aggregate issues))
      then jround (jmul (jdiv (progress_completedPoints (aggregate issues))
                              (progress_totalPoints (aggregate issues))) (Num 100))
      else Num 0)
   \<and> (\<forall>c t. progress_completedPoints (aggregate issues) = Num c
          \<and> progress_totalPoints (aggregate issues) = Num t \<and> 0 \<le> c \<and> c \<le> t \<and> 0 < t \<longrightarrow>
        (\<exists>n. progress_percentComplete (aggregate issues) = Num (of_int n)
           \<and> 0 \<le> n \<and> n \<le> 100
           \<and> \<bar>of_int n - 100 * c / t\<bar> \<le> 1/2 + 1 / 2 ^ 46
           \<and> ((\<forall>k. 1 / 2 ^ 46 < \<bar>100 * c / t - (of_int k + 1/2)\<bar>) \<longrightarrow>
                n = round (100 * c / t))))
   \<and> aggregate [] =
       \<lparr>issues_total = 0, issues_byStatus = [], issues_byType = [],
        progress_completedPoints = Num 0, progress_totalPoints = Num 0,
        progress_percentComplete = Num 0\<rparr>"
proof (intro conjI allI impI)
  show "progress_percentComplete (aggregate issues) =
     (if jless (Num 0) (progress_totalPoints (aggregate issues))
      then jround (jmul (jdiv (progress_completedPoints (aggregate issues))
                              (progress_totalPoints (aggregate issues))) (Num 100))
      else Num 0)"
    by (simp add: aggregate_def Let_def percentOf_def)
next
  fix c t
  assume h: "progress_completedPoints (aggregate issues) = Num c
          \<and> progress_totalPoints (aggregate issues) = Num t \<and> 0 \<le> c \<and> c \<le> t \<and> 0 < t"
  then have pc: "progress_percentComplete (aggregate issues) = percentOf (Num c) (Num t)"
    by (simp add: aggregate_def Let_def)
  from h percent_bounds [of c t] obtain n where
    n: "percentOf (Num c) (Num t) = Num (of_int n)" "0 \<le> n" "n \<le> 100"
       "\<bar>of_int n - 100 * c / t\<bar> \<le> 1/2 + 1 / 2 ^ 46"
    by blast
  have "(\<forall>k. 1 / 2 ^ 46 < \<bar>100 * c / t - (of_int k + 1/2)\<bar>) \<longrightarrow> n = round (100 * c / t)"
    using near_round [OF n(4)] by blast
  with n pc
  show "\<exists>n. progress_percentComplete (aggregate issues) = Num (of_int n)
           \<and> 0 \<le> n \<and> n \<le> 100
           \<and> \<bar>of_int n - 100 * c / t\<bar> \<le> 1/2 + 1 / 2 ^ 46
           \<and> ((\<forall>k. 1 / 2 ^ 46 < \<bar>100 * c / t - (of_int k + 1/2)\<bar>) \<longrightarrow>
                n = round (100 * c / t))"
    by auto
next
  show "aggregate [] =
       \<lparr>issues_total = 0, issues_byStatus = [], issues_byType = [],
        progress_completedPoints = Num 0, progress_totalPoints = Num 0,
        progress_percentComplete = Num 0\<rparr>"
    by (rule aggregate_Nil)
qed

text \<open>One point done out of four: 25 percent.\<close>

definition oneOfFour :: "issue list" where
  "oneOfFour =
     [\<lparr>status_name = ''Done'', issuetype_name = ''Story'', customfield_10016 = Some (Num 1)\<rparr>,
      \<lparr>status_name = ''To Do'', issuetype_name = ''Task'', customfield_10016 = Some (Num 3)\<rparr>]"

lemma aggregate_oneOfFour:
  "progress_completedPoints (aggregate oneOfFour) = Num 1
   \<and> progress_totalPoints (aggregate oneOfFour) = Num 4"
  by (simp add: aggregate_def Let_def tallyIssues_def oneOfFour_def tallyIssue_def emptyTally_def
      storyPointsOf_def doneStatuses_def fl_numeral fl_one)

lemma far_from_half: "1 / 2 ^ 46 < \<bar>(25::rat) - (of_int k + 1/2)\<bar>"
proof (cases "k \<le> 24")
  case True
  then have "(of_int k :: rat) \<le> of_int 24" by (simp only: of_int_le_iff)
  then show ?thesis by simp
next
  case False
  then have "25 \<le> k" by simp
  then have "(of_int 25 :: rat) \<le> of_int k" by (simp only: of_int_le_iff)
  then show ?thesis by simp
qed

theorem percentComplete_in_doubles_witness:
  "progress_completedPoints (aggregate oneOfFour) = Num 1
   \<and> progress_totalPoints (aggregate oneOfFour) = Num 4
   \<and> progress_percentComplete (aggregate oneOfFour) = Num 25"
proof -
  have h: "progress_completedPoints (aggregate oneOfFour) = Num 1
      \<and> progress_totalPoints (aggregate oneOfFour) = Num 4 \<and> (0::rat) \<le> 1 \<and> (1::rat) \<le> 4
      \<and> (0::rat) < 4"
    using aggregate_oneOfFour by simp
  from percentComplete_in_doubles [of oneOfFour] h
  obtain n where n: "progress_percentComplete (aggregate oneOfFour) = Num (of_int n)"
    and r: "(\<forall>k. 1 / 2 ^ 46 < \<bar>100 * 1 / 4 - (of_int k + 1/2 :: rat)\<bar>) \<longrightarrow>
              n = round (100 * 1 / 4 :: rat)"
    by blast
  have "\<forall>k. 1 / 2 ^ 46 < \<bar>100 * 1 / 4 - (of_int k + 1/2 :: rat)\<bar>"
    using far_from_half by simp
  with r have "n = round (100 * 1 / 4 :: rat)" by blast
  then have "n = 25" by (simp add: round_def floor_eq_iff)
  with n aggregate_oneOfFour show ?thesis by simp
qed

lemma jdiv_23_40: "jdiv (Num 23) (Num 40) = Num (2589569785738035 / 4503599627370496)"
proof -
  have "fl (23 / 40) = Num (2589569785738035 / 4503599627370496)"
    by (rule fl_eqI [where e = "- 53" and m = 5179139571476070])
      (simp_all add: power_int_minus)
  then show ?thesis by simp
qed

lemma jmul_23_40_100:
  "jmul (Num (2589569785738035 / 4503599627370496)) (Num 100) =
   Num (8092405580431359 / 140737488355328)"
proof -
  have "fl (2589569785738035 / 4503599627370496 * 100) =
      Num (8092405580431359 / 140737488355328)"
    by (rule fl_eqI [where e = "- 47" and m = 8092405580431359])
      (simp_all add: power_int_minus)
  then show ?thesis by (simp only: jmul.simps)
qed

lemma percentOf_23_40: "percentOf (Num 23) (Num 40) = Num 57"
proof -
  have "percentOf (Num 23) (Num 40) = jround (jmul (jdiv (Num 23) (Num 40)) (Num 100))"
    by (simp add: percentOf_def)
  also have "\<dots> = jround (Num (8092405580431359 / 140737488355328))"
    by (simp only: jdiv_23_40 jmul_23_40_100)
  also have "\<dots> = Num 57" by (simp add: floor_eq_iff)
  finally show ?thesis .
qed

definition sprint23of40 :: "issue list" where
  "sprint23of40 =
     [\<lparr>status_name = ''Done'', issuetype_name = ''Story'', customfield_10016 = Some (Num 23)\<rparr>,
      \<lparr>status_name = ''In Progress'', issuetype_name = ''Story'',
        customfield_10016 = Some (Num 17)\<rparr>]"

lemma aggregate_sprint23of40:
  "progress_completedPoints (aggregate sprint23of40) = Num 23
   \<and> progress_totalPoints (aggregate sprint23of40) = Num 40"
  by (simp add: aggregate_def Let_def tallyIssues_def sprint23of40_def tallyIssue_def emptyTally_def
      storyPointsOf_def doneStatuses_def fl_numeral)

text \<open>
  Claim C1 as stated fails: with 23 points done out of 40 the exact value is 57.5, which
  rounds to 58, but the double \<open>23 / 40\<close> lies below 0.575, its product with 100 is
  the double just below 57.5, and \<open>Math.round\<close> gives 57.
\<close>

theorem percentComplete_23_of_40:
  "progress_completedPoints (aggregate sprint23of40) = Num 23
   \<and> progress_totalPoints (aggregate sprint23of40) = Num 40
   \<and> progress_percentComplete (aggregate sprint23of40) = Num 57
   \<and> round (100 * 23 / 40 :: rat) = 58
   \<and> progress_percentComplete (aggregate sprint23of40) \<noteq> Num (of_int (round (100 * 23 / 40 :: rat)))"
proof -
  have r: "round (100 * 23 / 40 :: rat) = 58" by (simp add: round_def)
  have p: "progress_percentComplete (aggregate sprint23of40) = Num 57"
    using aggregate_sprint23of40 percentOf_23_40 by (simp add: aggregate_def Let_def)
  show ?thesis using aggregate_sprint23of40 p r by simp
qed



subsection \<open>The histograms count every issue once\<close>

text \<open>
  The sum of the values of a histogram, and whether every value is a number. A value that
  is a text makes the JavaScript sum a text; it counts 0 here and \<open>allNumbers\<close> is
  false.
\<close>

fun countOf :: "jsval \<Rightarrow> nat" where
  "countOf (Count n) = n"
| "countOf v = 0"

fun isCount :: "jsval \<Rightarrow> bool" where
  "isCount (Count n) = True"
| "isCount v = False"

definition sumOfValues :: "jsobject \<Rightarrow> nat" where
  "sumOfValues obj = sum_list (map (\<lambda>p. countOf (snd p)) obj)"

definition allNumbers :: "jsobject \<Rightarrow> bool" where
  "allNumbers obj = list_all (\<lambda>p. isCount (snd p)) obj"

lemma putOwn_new:
  assumes "map_of obj k = None"
  shows "sumOfValues (putOwn k v obj) = sumOfValues obj + countOf v
    \<and> (allNumbers obj \<and> isCount v \<longrightarrow> allNumbers (putOwn k v obj))"
  using assms
  by (induction obj) (auto simp: sumOfValues_def allNumbers_def split: if_splits)

lemma putOwn_old:
  assumes "map_of obj k = Some (Count n)"
  shows "sumOfValues (putOwn k (Count (n + 1)) obj) = sumOfValues obj + 1
    \<and> (allNumbers obj \<longrightarrow> allNumbers (putOwn k (Count (n + 1)) obj))"
  using assms
  by (induction obj) (auto simp: sumOfValues_def allNumbers_def split: if_splits)

lemma allNumbers_lookup:
  assumes "allNumbers obj" and "map_of obj k = Some v"
  shows "isCount v"
  using assms by (induction obj) (auto simp: allNumbers_def split: if_splits)

lemma proto_in_keys: "''__proto__'' \<in> set objectPrototypeKeys"
  by (simp add: objectPrototypeKeys_def)

lemma countUp_ordinary:
  assumes "k \<notin> set objectPrototypeKeys" and "allNumbers obj"
  shows "sumOfValues (countUp obj k) = sumOfValues obj + 1 \<and> allNumbers (countUp obj k)"
proof -
  have k: "k \<noteq> ''__proto__''" using assms(1) proto_in_keys by auto
  show ?thesis
  proof (cases "map_of obj k")
    case None
    then show ?thesis
      using assms k putOwn_new [of obj k "Count 1"]
      by (simp add: countUp_def getProp_def setProp_def)
  next
    case (Some v)
    with assms(2) have "isCount v" by (rule allNumbers_lookup)
    then obtain n where v: "v = Count n" by (cases v) simp_all
    show ?thesis
      using assms k Some putOwn_old [of obj k n]
      by (simp add: countUp_def getProp_def setProp_def v)
  qed
qed

text \<open>An issue whose status and type are not names of properties of \<open>Object.prototype\<close>.\<close>

definition ordinaryLabels :: "issue \<Rightarrow> bool" where
  "ordinaryLabels i \<longleftrightarrow>
     status_name i \<notin> set objectPrototypeKeys \<and> issuetype_name i \<notin> set objectPrototypeKeys"

lemma tally_counts:
  assumes "\<forall>i\<in>set issues. ordinaryLabels i"
    and "allNumbers (statusCounts t)" and "allNumbers (typeCounts t)"
  shows "sumOfValues (statusCounts (foldl tallyIssue t issues)) =
           sumOfValues (statusCounts t) + length issues
    \<and> sumOfValues (typeCounts (foldl tallyIssue t issues)) =
           sumOfValues (typeCounts t) + length issues
    \<and> allNumbers (statusCounts (foldl tallyIssue t issues))
    \<and> allNumbers (typeCounts (foldl tallyIssue t issues))"
  using assms
proof (induction issues arbitrary: t)
  case Nil
  then show ?case by simp
next
  case (Cons i issues)
  have i: "status_name i \<notin> set objectPrototypeKeys" "issuetype_name i \<notin> set objectPrototypeKeys"
    using Cons.prems(1) by (simp_all add: ordinaryLabels_def)
  note s = countUp_ordinary [OF i(1) Cons.prems(2)]
  note y = countUp_ordinary [OF i(2) Cons.prems(3)]
  have "allNumbers (statusCounts (tallyIssue t i))" "allNumbers (typeCounts (tallyIssue t i))"
    using s y by (simp_all add: tallyIssue_def Let_def)
  from Cons.IH [OF _ this] Cons.prems(1) s y show ?case
    by (simp add: tallyIssue_def Let_def)
qed

definition protoIssue :: issue where
  "protoIssue = \<lparr>status_name = ''__proto__'', issuetype_name = ''Bug'', customfield_10016 = None\<rparr>"

definition constructorIssue :: issue where
  "constructorIssue =
     \<lparr>status_name = ''To Do'', issuetype_name = ''constructor'', customfield_10016 = None\<rparr>"

text \<open>
  Claim C4. When no status or type of the list is the name of a property that the empty
  object inherits from \<open>Object.prototype\<close>, every value of both histograms is a number
  and the values of each sum to the number of issues. For the other labels the claim
  fails: an issue whose status is \<open>__proto__\<close> leaves \<open>statusCounts\<close> empty, so the
  values sum to 0 for one issue, and a type \<open>constructor\<close> gets a text for its value.
\<close>

theorem histogram_sums:
  "((\<forall>i\<in>set issues. ordinaryLabels i) \<longrightarrow>
      allNumbers (issues_byStatus (aggregate issues))
      \<and> allNumbers (issues_byType (aggregate issues))
      \<and> sumOfValues (issues_byStatus (aggregate issues)) = length issues
      \<and> sumOfValues (issues_byType (aggregate issues)) = length issues
      \<and> issues_total (aggregate issues) = length issues)
   \<and> issues_total (aggregate [protoIssue]) = 1
   \<and> issues_byStatus (aggregate [protoIssue]) = []
   \<and> sumOfValues (issues_byStatus (aggregate [protoIssue])) = 0
   \<and> issues_byType (aggregate [constructorIssue]) = [(''constructor'', Text)]
   \<and> \<not> allNumbers (issues_byType (aggregate [constructorIssue]))"
proof (intro conjI impI)
  assume h: "\<forall>i\<in>set issues. ordinaryLabels i"
  from tally_counts [OF h, of emptyTally]
  have t: "sumOfValues (statusCounts (tallyIssues issues)) = length issues"
    "sumOfValues (typeCounts (tallyIssues issues)) = length issues"
    "allNumbers (statusCounts (tallyIssues issues))"
    "allNumbers (typeCounts (tallyIssues issues))"
    by (simp_all add: tallyIssues_def emptyTally_def allNumbers_def sumOfValues_def)
  show "allNumbers (issues_byStatus (aggregate issues))"
    "allNumbers (issues_byType (aggregate issues))"
    "sumOfValues (issues_byStatus (aggregate issues)) = length issues"
    "sumOfValues (issues_byType (aggregate issues)) = length issues"
    "issues_total (aggregate issues) = length issues"
    using t by (simp_all add: aggregate_def Let_def)
next
  show "issues_total (aggregate [protoIssue]) = 1" by (simp add: aggregate_def Let_def)
  show p: "issues_byStatus (aggregate [protoIssue]) = []"
    by (simp add: aggregate_def Let_def tallyIssues_def tallyIssue_def emptyTally_def
        protoIssue_def countUp_def setProp_def)
  show "sumOfValues (issues_byStatus (aggregate [protoIssue])) = 0"
    by (simp add: p sumOfValues_def)
  show c: "issues_byType (aggregate [constructorIssue]) = [(''constructor'', Text)]"
    by (simp add: aggregate_def Let_def tallyIssues_def tallyIssue_def emptyTally_def
        constructorIssue_def countUp_def setProp_def getProp_def objectPrototypeKeys_def)
  show "\<not> allNumbers (issues_byType (aggregate [constructorIssue]))"
    by (simp add: c allNumbers_def)
qed

lemma twoIssues_ordinary: "\<forall>i\<in>set twoIssues. ordinaryLabels i"
  by (simp add: twoIssues_def ordinaryLabels_def objectPrototypeKeys_def)

theorem histogram_sums_witness:
  "sumOfValues (issues_byStatus (aggregate twoIssues)) = 2
   \<and> sumOfValues (issues_byType (aggregate twoIssues)) = 2
   \<and> issues_total (aggregate twoIssues) = 2
   \<and> allNumbers (issues_byStatus (aggregate twoIssues))
   \<and> allNumbers (issues_byType (aggregate twoIssues))"
proof -
  have "length twoIssues = 2" by (simp add: twoIssues_def)
  then show ?thesis using histogram_sums [of twoIssues] twoIssues_ordinary by simp
qed

section \<open>Finding the current sprint\<close>

text \<open>
  A date field of a sprint as Jira sends it: left out (\<open>undefined\<close>), \<open>null\<close>, or an
  ISO timestamp, kept as the instant \<open>new Date(\<dots>).getTime()\<close> makes of it, in
  milliseconds since the epoch. \<open>instant\<close> is that instant when the field holds a date;
  the field is falsy exactly when it holds none.
\<close>

datatype dateField = DateMissing | DateNull | DateAt int

fun instant :: "dateField \<Rightarrow> int option" where
  "instant (DateAt ms) = Some ms"
| "instant DateMissing = None"
| "instant DateNull = None"

text \<open>What the program reads of a sprint.\<close>

record sprint =
  sprint_id :: int
  sprint_name :: string
  goal :: "string option"
  startDate :: dateField
  endDate :: dateField
  state :: string

text \<open>
  A thrown value is an \<open>Error\<close> with its message, or some other value, kept as the text
  \<open>JSON.stringify\<close> makes of it. A function that can throw returns a sum, with the thrown
  value on the left.
\<close>

datatype thrown = JsError string | NonError string

text \<open>
  The Jira client. \<open>getBoardsForProject\<close> answers the ids of \<open>boards.values\<close>;
  \<open>sprintsOfBoard b active\<close> is the request of
  \<open>/rest/agile/1.0/board/b/sprint\<close>, with \<open>?state=active\<close> when \<open>active\<close> holds, and
  answers \<open>values\<close>; \<open>searchJira\<close> is the search for the issues of a sprint and answers
  \<open>issues\<close>. \<open>None\<close> is an answer without that field.
\<close>

record client =
  getBoardsForProject :: "string \<Rightarrow> thrown + jsnum list option"
  sprintsOfBoard :: "jsnum \<Rightarrow> bool \<Rightarrow> thrown + sprint list option"
  searchJira :: "int \<Rightarrow> thrown + issue list option"

datatype request = BoardsForProject string | SprintsOfBoard jsnum bool | SearchJira int

text \<open>
  The constructor arguments of \<open>JiraSprintManager\<close>, and the two functions of the engine
  that the program applies to numbers and strings: the conversion of a number to a
  string in a template, and \<open>parseInt\<close>.
\<close>

record config =
  projectKey :: string
  defaultBoardId :: "jsnum option"

record engine =
  numberToString :: "jsnum \<Rightarrow> string"
  parseInt :: "string \<Rightarrow> jsnum"

subsection \<open>Messages\<close>

definition msgNoBoards :: "string \<Rightarrow> string" where
  "msgNoBoards pk =
     ''N'' @ [CHR 0xC3, CHR 0xA3] @ ''o foi poss'' @ [CHR 0xC3, CHR 0xAD]
       @ ''vel encontrar quadros para o projeto '' @ pk"

definition msgNoBoard :: "string \<Rightarrow> string" where
  "msgNoBoard pk =
     ''N'' @ [CHR 0xC3, CHR 0xA3] @ ''o foi poss'' @ [CHR 0xC3, CHR 0xAD]
       @ ''vel encontrar um board para o projeto '' @ pk
       @ ''. Por favor, forne'' @ [CHR 0xC3, CHR 0xA7] @ ''a um Board ID.''"

definition msgNoSprints :: "string \<Rightarrow> string" where
  "msgNoSprints board =
     ''N'' @ [CHR 0xC3, CHR 0xA3] @ ''o foram encontradas sprints para o quadro '' @ board"

definition msgApiError :: string where
  "msgApiError = ''Erro ao buscar sprint ativa: ''"

definition msgNotFound :: string where
  "msgNotFound =
     ''N'' @ [CHR 0xC3, CHR 0xA3] @ ''o foi poss'' @ [CHR 0xC3, CHR 0xAD]
       @ ''vel encontrar a sprint ativa: ''"

definition msgNotFoundCheck :: string where
  "msgNotFoundCheck =
     ''N'' @ [CHR 0xC3, CHR 0xA3] @ ''o foi poss'' @ [CHR 0xC3, CHR 0xAD]
       @ ''vel encontrar a sprint ativa. Verifique se o Board ID est'' @ [CHR 0xC3, CHR 0xA1]
       @ '' correto e se existe uma sprint ativa.''"

definition msgNoDetails :: string where
  "msgNoDetails =
     ''N'' @ [CHR 0xC3, CHR 0xA3] @ ''o foi poss'' @ [CHR 0xC3, CHR 0xAD]
       @ ''vel obter os detalhes da sprint''"

definition msgNoName :: string where
  "msgNoName = ''Cannot read properties of undefined (reading 'name')''"

subsection \<open>The sort by start date\<close>

text \<open>
  The comparison function given to \<open>sort\<close>: 1 when \<open>a.startDate\<close> is falsy, else -1
  when \<open>b.startDate\<close> is falsy, else the difference of the instants. The difference is
  an integer here; as a double it has the same sign, and the sort reads the sign only.
\<close>

definition compareSprints :: "sprint \<Rightarrow> sprint \<Rightarrow> int" where
  "compareSprints a b =
     (case instant (startDate a) of
        None \<Rightarrow> 1
      | Some da \<Rightarrow> (case instant (startDate b) of None \<Rightarrow> - 1 | Some db \<Rightarrow> db - da))"

text \<open>
  \<open>Array.prototype.sort\<close> belongs to the engine. It is a stable sort, modelled as the
  insertion sort that takes the elements in array order and puts each one before the
  first element already placed against which the comparison function answers a negative
  number, the new element being its first argument.
\<close>

fun insertBefore :: "('a \<Rightarrow> 'a \<Rightarrow> int) \<Rightarrow> 'a \<Rightarrow> 'a list \<Rightarrow> 'a list" where
  "insertBefore cmp x [] = [x]"
| "insertBefore cmp x (y # ys) =
     (if cmp x y < 0 then x # y # ys else y # insertBefore cmp x ys)"

definition js_sort :: "('a \<Rightarrow> 'a \<Rightarrow> int) \<Rightarrow> 'a list \<Rightarrow> 'a list" where
  "js_sort cmp xs = foldl (\<lambda>placed x. insertBefore cmp x placed) [] xs"

subsection \<open>\<open>getActiveSprint\<close>\<close>

text \<open>
  Each function returns the requests it sent to Jira, in order, with its result.
  \<open>truthyOpt\<close> is the truthiness of a number that may be \<open>undefined\<close>.
\<close>

definition truthyOpt :: "jsnum option \<Rightarrow> bool" where
  "truthyOpt v = (case v of None \<Rightarrow> False | Some n \<Rightarrow> truthy n)"

text \<open>The first board of the project, when neither argument nor configuration names one.\<close>

definition discoverBoard :: "client \<Rightarrow> config \<Rightarrow> thrown + jsnum" where
  "discoverBoard c cfg =
     (case (case getBoardsForProject c (projectKey cfg) of
              Inl err \<Rightarrow> Inl err
            | Inr None \<Rightarrow> Inl (JsError (msgNoBoards (projectKey cfg)))
            | Inr (Some []) \<Rightarrow> Inl (JsError (msgNoBoards (projectKey cfg)))
            | Inr (Some (b # bs)) \<Rightarrow> Inr b) of
        Inl err \<Rightarrow> Inl (JsError (msgNoBoard (projectKey cfg)))
      | Inr b \<Rightarrow> Inr b)"

definition targetBoard :: "client \<Rightarrow> config \<Rightarrow> jsnum option \<Rightarrow> request list \<times> (thrown + jsnum)" where
  "targetBoard c cfg boardId =
     (let targetBoardId = (if truthyOpt boardId then boardId else defaultBoardId cfg)
      in case targetBoardId of
           None \<Rightarrow> ([BoardsForProject (projectKey cfg)], discoverBoard c cfg)
         | Some b \<Rightarrow>
             if truthy b then ([], Inr b)
             else ([BoardsForProject (projectKey cfg)], discoverBoard c cfg))"

text \<open>The two sprint requests and the choice of the sprint, inside the inner \<open>try\<close>.\<close>

definition pickSprint :: "engine \<Rightarrow> jsnum \<Rightarrow> sprint list option \<Rightarrow> thrown + sprint" where
  "pickSprint eng target resultRecent =
     (case resultRecent of
        None \<Rightarrow> Inl (JsError (msgNoSprints (numberToString eng target)))
      | Some [] \<Rightarrow> Inl (JsError (msgNoSprints (numberToString eng target)))
      | Some (s # ss) \<Rightarrow>
          (case js_sort compareSprints (s # ss) of
             [] \<Rightarrow> Inl (JsError msgNoName)
           | first # rest \<Rightarrow> Inr first))"

definition querySprints :: "engine \<Rightarrow> client \<Rightarrow> jsnum \<Rightarrow> request list \<times> (thrown + sprint)" where
  "querySprints eng c target =
     (case sprintsOfBoard c target True of
        Inl err \<Rightarrow> ([SprintsOfBoard target True], Inl err)
      | Inr (Some (s # ss)) \<Rightarrow> ([SprintsOfBoard target True], Inr s)
      | Inr resultActive \<Rightarrow>
          (case sprintsOfBoard c target False of
             Inl err \<Rightarrow> ([SprintsOfBoard target True, SprintsOfBoard target False], Inl err)
           | Inr resultRecent \<Rightarrow>
               ([SprintsOfBoard target True, SprintsOfBoard target False],
                pickSprint eng target resultRecent)))"

text \<open>The handler of the inner \<open>try\<close> and the handler of the outer one.\<close>

definition apiError :: "thrown \<Rightarrow> thrown" where
  "apiError err =
     JsError (msgApiError @ (case err of JsError message \<Rightarrow> message | NonError json \<Rightarrow> json))"

definition notFound :: "thrown \<Rightarrow> thrown" where
  "notFound err =
     (case err of
        JsError message \<Rightarrow> JsError (msgNotFound @ message)
      | NonError json \<Rightarrow> JsError msgNotFoundCheck)"

definition getActiveSprint ::
  "engine \<Rightarrow> client \<Rightarrow> config \<Rightarrow> jsnum option \<Rightarrow> request list \<times> (thrown + sprint)" where
  "getActiveSprint eng c cfg boardId =
     (case targetBoard c cfg boardId of
        (sent, Inl err) \<Rightarrow> (sent, Inl (notFound err))
      | (sent, Inr target) \<Rightarrow>
          (case querySprints eng c target of
             (sent', Inl err) \<Rightarrow> (sent @ sent', Inl (notFound (apiError err)))
           | (sent', Inr s) \<Rightarrow> (sent @ sent', Inr s)))"

subsection \<open>\<open>getSprintIssues\<close> and \<open>getSprintDetails\<close>\<close>

definition getSprintIssues :: "client \<Rightarrow> int \<Rightarrow> request list \<times> issue list" where
  "getSprintIssues c sprintId =
     ([SearchJira sprintId],
      case searchJira c sprintId of
        Inl err \<Rightarrow> []
      | Inr None \<Rightarrow> []
      | Inr (Some found) \<Rightarrow> found)"

text \<open>
  The object returned: \<open>sprint\<close> copies the id, name, dates and state of the sprint and
  has \<open>sprint.goal || "Sem objetivo definido"\<close> for its goal; \<open>issues\<close> and \<open>progress\<close> are
  the numbers of the loop; \<open>allIssues\<close> is the list searched.
\<close>

record details =
  details_sprint :: sprint
  details_numbers :: aggregated
  allIssues :: "issue list"

definition msgNoGoal :: string where
  "msgNoGoal = ''Sem objetivo definido''"

definition goalOrDefault :: "string option \<Rightarrow> string" where
  "goalOrDefault g =
     (case g of None \<Rightarrow> msgNoGoal | Some text \<Rightarrow> if text = [] then msgNoGoal else text)"

definition detailsOf :: "sprint \<Rightarrow> issue list \<Rightarrow> details" where
  "detailsOf s issues =
     \<lparr>details_sprint = s\<lparr>goal := Some (goalOrDefault (goal s))\<rparr>,
      details_numbers = aggregate issues,
      allIssues = issues\<rparr>"

definition getSprintDetails ::
  "engine \<Rightarrow> client \<Rightarrow> config \<Rightarrow> jsnum option \<Rightarrow> request list \<times> (thrown + details)" where
  "getSprintDetails eng c cfg boardId =
     (case getActiveSprint eng c cfg boardId of
        (sent, Inl err) \<Rightarrow> (sent, Inl (JsError msgNoDetails))
      | (sent, Inr s) \<Rightarrow>
          (case getSprintIssues c (sprint_id s) of
             (sent', issues) \<Rightarrow>
               (sent @ sent', Inr (detailsOf s issues))))"

subsection \<open>The fallback to the most recently started sprint\<close>

text \<open>\<open>a\<close> may stand before \<open>b\<close>: by start date descending, a sprint without one last.\<close>

definition mayPrecede :: "sprint \<Rightarrow> sprint \<Rightarrow> bool" where
  "mayPrecede a b =
     (case instant (startDate b) of
        None \<Rightarrow> True
      | Some db \<Rightarrow> (case instant (startDate a) of None \<Rightarrow> False | Some da \<Rightarrow> db \<le> da))"

lemma mayPrecede_iff: "mayPrecede a b \<longleftrightarrow> \<not> compareSprints b a < 0"
  by (auto simp: mayPrecede_def compareSprints_def split: option.splits)

lemma compareSprints_trans:
  assumes "compareSprints a b < 0" and "compareSprints b c < 0"
  shows "compareSprints a c < 0"
  using assms by (auto simp: compareSprints_def split: option.splits)

lemma compareSprints_asym:
  assumes "compareSprints a b < 0"
  shows "\<not> compareSprints b a < 0"
  using assms by (auto simp: compareSprints_def split: option.splits)

lemma set_insertBefore: "set (insertBefore cmp x ys) = insert x (set ys)"
  by (induction ys) auto

lemma mset_insertBefore: "mset (insertBefore cmp x ys) = add_mset x (mset ys)"
  by (induction ys) auto

lemma sorted_insertBefore:
  assumes "sorted_wrt mayPrecede ys"
  shows "sorted_wrt mayPrecede (insertBefore compareSprints x ys)"
  using assms
proof (induction ys)
  case Nil
  then show ?case by simp
next
  case (Cons y ys)
  show ?case
  proof (cases "compareSprints x y < 0")
    case True
    have "mayPrecede x z" if "z \<in> set (y # ys)" for z
    proof (cases "z = y")
      case True
      with \<open>compareSprints x y < 0\<close> show ?thesis
        by (simp add: mayPrecede_iff compareSprints_asym)
    next
      case False
      with that have "z \<in> set ys" by simp
      with Cons.prems have "\<not> compareSprints z y < 0" by (auto simp: mayPrecede_iff)
      with True show ?thesis
        using compareSprints_trans [of z x y] by (auto simp: mayPrecede_iff)
    qed
    with True Cons.prems show ?thesis by auto
  next
    case False
    then have "mayPrecede y x" by (simp add: mayPrecede_iff)
    with False Cons show ?thesis by (auto simp: set_insertBefore)
  qed
qed

lemma foldl_insertBefore:
  assumes "sorted_wrt mayPrecede placed"
  shows "sorted_wrt mayPrecede (foldl (\<lambda>placed x. insertBefore compareSprints x placed) placed xs)
    \<and> mset (foldl (\<lambda>placed x. insertBefore compareSprints x placed) placed xs) =
        mset placed + mset xs"
  using assms
  by (induction xs arbitrary: placed) (simp_all add: sorted_insertBefore mset_insertBefore)

lemma js_sort_sprints:
  "sorted_wrt mayPrecede (js_sort compareSprints xs) \<and> mset (js_sort compareSprints xs) = mset xs"
  using foldl_insertBefore [of "[]" xs] by (simp add: js_sort_def)

lemma insertBefore_undated:
  "filter (\<lambda>s. instant (startDate s) = None) (insertBefore compareSprints x ys) =
     (if instant (startDate x) = None then filter (\<lambda>s. instant (startDate s) = None) ys @ [x]
      else filter (\<lambda>s. instant (startDate s) = None) ys)"
  by (induction ys) (auto simp: compareSprints_def split: option.splits)

lemma foldl_insertBefore_undated:
  "filter (\<lambda>s. instant (startDate s) = None)
     (foldl (\<lambda>placed x. insertBefore compareSprints x placed) placed xs) =
   filter (\<lambda>s. instant (startDate s) = None) placed @ filter (\<lambda>s. instant (startDate s) = None) xs"
  by (induction xs arbitrary: placed) (simp_all add: insertBefore_undated)

text \<open>
  Claim C7. In the sorted list of the fallback, the sprints without a start date stand in
  the order they had in the list Jira sent: the comparison function never answers a
  negative number for such a sprint as its first argument, so the sort never moves one
  before a sprint placed earlier.
\<close>

theorem undated_sprints_keep_order:
  "filter (\<lambda>s. instant (startDate s) = None) (js_sort compareSprints xs) =
   filter (\<lambda>s. instant (startDate s) = None) xs"
  using foldl_insertBefore_undated [of "[]" xs] by (simp add: js_sort_def)

lemma pickSprint_first:
  assumes "xs \<noteq> []"
  shows "\<exists>s rest. js_sort compareSprints xs = s # rest
    \<and> pickSprint eng target (Some xs) = Inr s"
proof -
  have "mset (js_sort compareSprints xs) = mset xs" using js_sort_sprints by blast
  with assms have "js_sort compareSprints xs \<noteq> []" by (metis mset_zero_iff)
  then obtain s rest where sr: "js_sort compareSprints xs = s # rest"
    by (cases "js_sort compareSprints xs") auto
  obtain x ys where xs: "xs = x # ys" using assms by (cases xs) auto
  have "pickSprint eng target (Some xs) = Inr s"
    using sr by (simp add: pickSprint_def xs)
  with sr show ?thesis by blast
qed

text \<open>
  Claim C3. When the request for the active sprints of the target board answers none and
  the request for all its sprints answers a non-empty list, \<open>getActiveSprint\<close> returns
  the first element of that list sorted: the sorted list is a rearrangement of the list
  in which no sprint stands before one that started later and no sprint without a start
  date stands before one that has it. So the sprint returned started no earlier than any
  sprint of the list that has a start date, and has one itself if any has.
\<close>

theorem fallback_most_recent_sprint:
  assumes "targetBoard c cfg boardId = (sent, Inr target)"
    and "sprintsOfBoard c target True = Inr None \<or> sprintsOfBoard c target True = Inr (Some [])"
    and "sprintsOfBoard c target False = Inr (Some xs)"
    and "xs \<noteq> []"
  shows "\<exists>s rest. snd (getActiveSprint eng c cfg boardId) = Inr s
    \<and> js_sort compareSprints xs = s # rest
    \<and> mset (s # rest) = mset xs
    \<and> sorted_wrt mayPrecede (s # rest)
    \<and> s \<in> set xs
    \<and> (\<forall>d\<in>set xs. \<forall>t. instant (startDate d) = Some t \<longrightarrow> (\<exists>ts. instant (startDate s) = Some ts \<and> t \<le> ts))"
proof -
  from pickSprint_first [OF assms(4), of eng target] obtain s rest where
    sr: "js_sort compareSprints xs = s # rest" and p: "pickSprint eng target (Some xs) = Inr s"
    by blast
  have q: "snd (querySprints eng c target) = Inr s"
    using assms(2,3) p by (auto simp: querySprints_def)
  obtain sent' where "querySprints eng c target = (sent', Inr s)"
    using q by (cases "querySprints eng c target") simp
  then have g: "snd (getActiveSprint eng c cfg boardId) = Inr s"
    using assms(1) by (simp add: getActiveSprint_def)
  have m: "mset (s # rest) = mset xs" and o: "sorted_wrt mayPrecede (s # rest)"
    using js_sort_sprints [of xs] by (simp_all add: sr)
  have setxs: "set xs = set (s # rest)" using m by (metis set_mset_mset)
  have "\<exists>ts. instant (startDate s) = Some ts \<and> t \<le> ts" if "d \<in> set xs" "instant (startDate d) = Some t" for d t
  proof (cases "d = s")
    case True
    with that show ?thesis by simp
  next
    case False
    with that setxs have "d \<in> set rest" by simp
    with o have "mayPrecede s d" by simp
    with that(2) show ?thesis by (simp add: mayPrecede_def split: option.splits)
  qed
  with g sr m o setxs show ?thesis by auto
qed


text \<open>
  The scenario: no active sprint, and the sprints of the board are one without a start
  date, one started on 2024-01-01 and one started on 2024-03-01 (UTC midnight).
\<close>

definition sprintUndated :: sprint where
  "sprintUndated =
     \<lparr>sprint_id = 1, sprint_name = ''Sprint 1'', goal = None, startDate = DateNull,
      endDate = DateNull,
      state = ''future''\<rparr>"

definition sprintJanuary :: sprint where
  "sprintJanuary =
     \<lparr>sprint_id = 2, sprint_name = ''Sprint 2'', goal = None, startDate = DateAt 1704067200000,
      endDate = DateAt 1705276800000, state = ''closed''\<rparr>"

definition sprintMarch :: sprint where
  "sprintMarch =
     \<lparr>sprint_id = 3, sprint_name = ''Sprint 3'', goal = None, startDate = DateAt 1709251200000,
      endDate = DateAt 1710460800000, state = ''closed''\<rparr>"

definition scenarioClient :: client where
  "scenarioClient =
     \<lparr>getBoardsForProject = (\<lambda>pk. Inr (Some [Num 7])),
      sprintsOfBoard = (\<lambda>b active.
        if active then Inr (Some []) else Inr (Some [sprintUndated, sprintJanuary, sprintMarch])),
      searchJira = (\<lambda>sprintId. Inr (Some []))\<rparr>"

definition scenarioConfig :: config where
  "scenarioConfig = \<lparr>projectKey = ''PROJ'', defaultBoardId = None\<rparr>"

definition scenarioEngine :: engine where
  "scenarioEngine = \<lparr>numberToString = (\<lambda>n. ''7''), parseInt = (\<lambda>s. NaN)\<rparr>"

theorem fallback_most_recent_sprint_witness:
  "snd (getActiveSprint scenarioEngine scenarioClient scenarioConfig (Some (Num 7))) =
     Inr sprintMarch"
proof -
  let ?xs = "[sprintUndated, sprintJanuary, sprintMarch]"
  have t: "targetBoard scenarioClient scenarioConfig (Some (Num 7)) = ([], Inr (Num 7))"
    by (simp add: targetBoard_def truthyOpt_def)
  have a: "sprintsOfBoard scenarioClient (Num 7) True = Inr None
      \<or> sprintsOfBoard scenarioClient (Num 7) True = Inr (Some [])"
    by (simp add: scenarioClient_def)
  have r: "sprintsOfBoard scenarioClient (Num 7) False = Inr (Some ?xs)"
    by (simp add: scenarioClient_def)
  have n: "?xs \<noteq> []" by simp
  from fallback_most_recent_sprint [OF t a r n, of scenarioEngine]
  obtain s where g: "snd (getActiveSprint scenarioEngine scenarioClient scenarioConfig
        (Some (Num 7))) = Inr s"
    and m: "s \<in> set ?xs"
    and d: "\<forall>d\<in>set ?xs. \<forall>t. instant (startDate d) = Some t \<longrightarrow> (\<exists>ts. instant (startDate s) = Some ts \<and> t \<le> ts)"
    by blast
  from d have "\<exists>ts. instant (startDate s) = Some ts \<and> 1709251200000 \<le> ts"
    by (simp add: sprintMarch_def)
  with m have "s = sprintMarch"
    by (auto simp: sprintUndated_def sprintJanuary_def)
  with g show ?thesis by simp
qed

subsection \<open>What becomes of a failed request\<close>

text \<open>The text of a thrown value that the handler of the inner \<open>try\<close> puts in its message.\<close>

definition thrownText :: "thrown \<Rightarrow> string" where
  "thrownText err = (case err of JsError message \<Rightarrow> message | NonError json \<Rightarrow> json)"

lemma getActiveSprint_query_fails:
  assumes "targetBoard c cfg boardId = (sent, Inr target)"
    and "sprintsOfBoard c target True = Inl err
      \<or> ((sprintsOfBoard c target True = Inr None \<or> sprintsOfBoard c target True = Inr (Some []))
          \<and> sprintsOfBoard c target False = Inl err)"
  shows "snd (getActiveSprint eng c cfg boardId) =
    Inl (JsError (msgNotFound @ msgApiError @ thrownText err))"
proof -
  have "snd (querySprints eng c target) = Inl err"
    using assms(2) by (auto simp: querySprints_def)
  then obtain sent' where "querySprints eng c target = (sent', Inl err)"
    by (cases "querySprints eng c target") simp
  then show ?thesis
    using assms(1) by (simp add: getActiveSprint_def notFound_def apiError_def thrownText_def)
qed

lemma getActiveSprint_boards_fail:
  assumes "\<not> truthyOpt boardId" and "\<not> truthyOpt (defaultBoardId cfg)"
    and "getBoardsForProject c (projectKey cfg) = Inl err"
  shows "snd (getActiveSprint eng c cfg boardId) =
    Inl (JsError (msgNotFound @ msgNoBoard (projectKey cfg)))"
proof -
  have "discoverBoard c cfg = Inl (JsError (msgNoBoard (projectKey cfg)))"
    using assms(3) by (simp add: discoverBoard_def)
  then have "snd (targetBoard c cfg boardId) = Inl (JsError (msgNoBoard (projectKey cfg)))"
    using assms(1,2) by (auto simp: targetBoard_def truthyOpt_def Let_def split: option.splits)
  then obtain sent where
    "targetBoard c cfg boardId = (sent, Inl (JsError (msgNoBoard (projectKey cfg))))"
    by (cases "targetBoard c cfg boardId") simp
  then show ?thesis by (simp add: getActiveSprint_def notFound_def)
qed

lemma getSprintDetails_fails:
  assumes "snd (getActiveSprint eng c cfg boardId) = Inl err"
  shows "snd (getSprintDetails eng c cfg boardId) = Inl (JsError msgNoDetails)"
proof -
  obtain sent where "getActiveSprint eng c cfg boardId = (sent, Inl err)"
    using assms by (cases "getActiveSprint eng c cfg boardId") simp
  then show ?thesis by (simp add: getSprintDetails_def)
qed

text \<open>
  Claim C8, as amended. A sprint request that fails makes \<open>getActiveSprint\<close> throw an
  \<open>Error\<close> whose message ends with the message of the failure, after the two prefixes of
  the handlers. A board listing that fails makes it throw an \<open>Error\<close> with a fixed message
  that names the project and not the failure. \<open>getSprintDetails\<close> replaces every failure
  of \<open>getActiveSprint\<close> by one fixed message. A search for issues that fails is caught
  and gives the empty list.
\<close>

theorem collaborator_failures:
  "(targetBoard c cfg boardId = (sent, Inr target)
      \<and> (sprintsOfBoard c target True = Inl err
          \<or> ((sprintsOfBoard c target True = Inr None
                \<or> sprintsOfBoard c target True = Inr (Some []))
              \<and> sprintsOfBoard c target False = Inl err)) \<longrightarrow>
      snd (getActiveSprint eng c cfg boardId) =
        Inl (JsError (msgNotFound @ msgApiError @ thrownText err)))
   \<and> (\<not> truthyOpt boardId \<and> \<not> truthyOpt (defaultBoardId cfg)
        \<and> getBoardsForProject c (projectKey cfg) = Inl err \<longrightarrow>
      snd (getActiveSprint eng c cfg boardId) =
        Inl (JsError (msgNotFound @ msgNoBoard (projectKey cfg))))
   \<and> (snd (getActiveSprint eng c cfg boardId) = Inl err \<longrightarrow>
      snd (getSprintDetails eng c cfg boardId) = Inl (JsError msgNoDetails))
   \<and> (searchJira c sprintId = Inl err \<longrightarrow> snd (getSprintIssues c sprintId) = [])"
  using getActiveSprint_query_fails [of c cfg boardId sent target err eng]
    getActiveSprint_boards_fail [of boardId cfg c err eng]
    getSprintDetails_fails [of eng c cfg boardId err]
  by (simp add: getSprintIssues_def)

text \<open>A Jira that answers the sprint requests and refuses the search for issues.\<close>

definition searchFails :: client where
  "searchFails =
     \<lparr>getBoardsForProject = (\<lambda>pk. Inr (Some [Num 7])),
      sprintsOfBoard = (\<lambda>b active. Inr (Some [sprintMarch])),
      searchJira = (\<lambda>sprintId. Inl (JsError ''Request failed with status code 401''))\<rparr>"

text \<open>A Jira that refuses every request.\<close>

definition allFail :: client where
  "allFail =
     \<lparr>getBoardsForProject = (\<lambda>pk. Inl (JsError ''socket hang up'')),
      sprintsOfBoard = (\<lambda>b active. Inl (JsError ''socket hang up'')),
      searchJira = (\<lambda>sprintId. Inl (JsError ''socket hang up''))\<rparr>"

text \<open>
  Claim C8 as stated fails: when the search for the issues of the sprint is refused,
  \<open>getSprintIssues\<close> returns the empty list and \<open>getSprintDetails\<close> returns details with
  no issue, and nothing is thrown.
\<close>

theorem issue_search_failure_is_swallowed:
  "searchJira searchFails 3 = Inl (JsError ''Request failed with status code 401'')
   \<and> snd (getSprintIssues searchFails 3) = []
   \<and> snd (getSprintDetails scenarioEngine searchFails scenarioConfig (Some (Num 7))) =
       Inr \<lparr>details_sprint = sprintMarch\<lparr>goal := Some ''Sem objetivo definido''\<rparr>,
            details_numbers = aggregate [], allIssues = []\<rparr>"
  by (simp add: searchFails_def getSprintIssues_def getSprintDetails_def getActiveSprint_def
      targetBoard_def truthyOpt_def querySprints_def sprintMarch_def detailsOf_def
      goalOrDefault_def msgNoGoal_def)

theorem collaborator_failures_witness:
  "snd (getActiveSprint scenarioEngine allFail scenarioConfig (Some (Num 7))) =
     Inl (JsError (msgNotFound @ msgApiError @ ''socket hang up''))
   \<and> snd (getActiveSprint scenarioEngine allFail scenarioConfig None) =
     Inl (JsError (msgNotFound @ msgNoBoard ''PROJ''))
   \<and> snd (getSprintDetails scenarioEngine allFail scenarioConfig None) =
     Inl (JsError msgNoDetails)
   \<and> snd (getSprintIssues allFail 3) = []"
proof -
  let ?err = "JsError ''socket hang up''"
  have t: "targetBoard allFail scenarioConfig (Some (Num 7)) = ([], Inr (Num 7))"
    by (simp add: targetBoard_def truthyOpt_def)
  have q: "sprintsOfBoard allFail (Num 7) True = Inl ?err" by (simp add: allFail_def)
  have b: "\<not> truthyOpt None" "\<not> truthyOpt (defaultBoardId scenarioConfig)"
    "getBoardsForProject allFail (projectKey scenarioConfig) = Inl ?err"
    by (simp_all add: truthyOpt_def scenarioConfig_def allFail_def)
  have s: "searchJira allFail 3 = Inl ?err" by (simp add: allFail_def)
  have 1: "snd (getActiveSprint scenarioEngine allFail scenarioConfig (Some (Num 7))) =
     Inl (JsError (msgNotFound @ msgApiError @ ''socket hang up''))"
    using collaborator_failures [of allFail scenarioConfig "Some (Num 7)" "[]" "Num 7" ?err
        scenarioEngine] t q
    by (simp add: thrownText_def)
  have 2: "snd (getActiveSprint scenarioEngine allFail scenarioConfig None) =
     Inl (JsError (msgNotFound @ msgNoBoard ''PROJ''))"
    using collaborator_failures [of allFail scenarioConfig None _ _ ?err scenarioEngine] b
    by (simp add: scenarioConfig_def)
  have 3: "snd (getSprintDetails scenarioEngine allFail scenarioConfig None) =
     Inl (JsError msgNoDetails)"
    using collaborator_failures [of allFail scenarioConfig None _ _
        "JsError (msgNotFound @ msgNoBoard ''PROJ'')" scenarioEngine] 2
    by simp
  have 4: "snd (getSprintIssues allFail 3) = []"
    using collaborator_failures [of allFail _ _ _ _ ?err _ 3] s by simp
  from 1 2 3 4 show ?thesis by simp
qed

section \<open>The \<open>boardId\<close> argument of the tools\<close>

text \<open>
  The \<open>boardId\<close> of the tool schemas:
  \<open>z.union([z.number(), z.string().transform(\<dots>)]).optional()\<close>. The argument is left
  out, a number or a string; \<open>z.number()\<close> refuses NaN, and the transform turns a string
  that \<open>parseInt\<close> does not read as a number into \<open>undefined\<close>. The result is \<open>None\<close> when
  the argument is refused, and else the \<open>params.boardId\<close> the tool passes on.
\<close>

datatype boardIdArg = Omitted | NumberArg jsnum | StringArg string

definition boardIdSchema :: "engine \<Rightarrow> boardIdArg \<Rightarrow> jsnum option option" where
  "boardIdSchema eng arg =
     (case arg of
        Omitted \<Rightarrow> Some None
      | NumberArg n \<Rightarrow> if n = NaN then None else Some (Some n)
      | StringArg val \<Rightarrow>
          (let parsed = parseInt eng val
           in Some (if parsed = NaN then None else Some parsed)))"

text \<open>
  What \<open>getSprintSummary\<close> and \<open>getSprintProgress\<close> ask of Jira (\<open>getSprintDetails\<close>) and
  what \<open>getUserTasks\<close> asks first (\<open>getActiveSprint\<close>), for a \<open>boardId\<close> argument.
\<close>

definition toolSprintDetails ::
  "engine \<Rightarrow> client \<Rightarrow> config \<Rightarrow> boardIdArg \<Rightarrow> (request list \<times> (thrown + details)) option" where
  "toolSprintDetails eng c cfg arg =
     map_option (getSprintDetails eng c cfg) (boardIdSchema eng arg)"

definition toolActiveSprint ::
  "engine \<Rightarrow> client \<Rightarrow> config \<Rightarrow> boardIdArg \<Rightarrow> (request list \<times> (thrown + sprint)) option" where
  "toolActiveSprint eng c cfg arg =
     map_option (getActiveSprint eng c cfg) (boardIdSchema eng arg)"

lemma targetBoard_falsy:
  assumes "\<not> truthyOpt boardId"
  shows "targetBoard c cfg boardId = targetBoard c cfg None"
  using assms by (simp add: targetBoard_def truthyOpt_def)

lemma getActiveSprint_falsy:
  assumes "\<not> truthyOpt boardId"
  shows "getActiveSprint eng c cfg boardId = getActiveSprint eng c cfg None"
  using targetBoard_falsy [OF assms] by (simp add: getActiveSprint_def)

lemma getSprintDetails_falsy:
  assumes "\<not> truthyOpt boardId"
  shows "getSprintDetails eng c cfg boardId = getSprintDetails eng c cfg None"
  using getActiveSprint_falsy [OF assms] by (simp add: getSprintDetails_def)


text \<open>The requests of each function, by the way the target board is found.\<close>

lemma querySprints_sent:
  "\<exists>rest. fst (querySprints eng c target) = SprintsOfBoard target True # rest
     \<and> set rest \<subseteq> {SprintsOfBoard target False}"
  by (auto simp: querySprints_def split: sum.splits option.splits list.splits)

lemma getActiveSprint_sent:
  assumes "targetBoard c cfg boardId = (sent, Inr target)"
  shows "\<exists>rest. fst (getActiveSprint eng c cfg boardId) = sent @ SprintsOfBoard target True # rest
     \<and> set rest \<subseteq> {SprintsOfBoard target False}"
proof -
  obtain sent' res where q: "querySprints eng c target = (sent', res)"
    by (cases "querySprints eng c target")
  from querySprints_sent [of eng c target] q obtain rest where
    "sent' = SprintsOfBoard target True # rest" "set rest \<subseteq> {SprintsOfBoard target False}"
    by auto
  then show ?thesis using assms q by (auto simp: getActiveSprint_def split: sum.splits)
qed

lemma getActiveSprint_no_target:
  assumes "targetBoard c cfg boardId = (sent, Inl err)"
  shows "getActiveSprint eng c cfg boardId = (sent, Inl (notFound err))"
  using assms by (simp add: getActiveSprint_def)

lemma getSprintDetails_sent:
  "\<exists>extra. fst (getSprintDetails eng c cfg boardId) =
       fst (getActiveSprint eng c cfg boardId) @ extra
     \<and> set extra \<subseteq> range SearchJira
     \<and> (\<forall>err. snd (getActiveSprint eng c cfg boardId) = Inl err \<longrightarrow>
          extra = [] \<and> snd (getSprintDetails eng c cfg boardId) = Inl (JsError msgNoDetails))"
proof (cases "getActiveSprint eng c cfg boardId")
  case (Pair sent res)
  show ?thesis
  proof (cases res)
    case (Inl err)
    with Pair show ?thesis by (simp add: getSprintDetails_def)
  next
    case (Inr s)
    with Pair show ?thesis by (simp add: getSprintDetails_def getSprintIssues_def)
  qed
qed

lemma targetBoard_default:
  assumes "defaultBoardId cfg = Some d" and "truthy d"
  shows "targetBoard c cfg None = ([], Inr d)"
  using assms by (simp add: targetBoard_def truthyOpt_def)

lemma targetBoard_discover:
  assumes "\<not> truthyOpt (defaultBoardId cfg)"
  shows "targetBoard c cfg None = ([BoardsForProject (projectKey cfg)], discoverBoard c cfg)"
  using assms by (auto simp: targetBoard_def truthyOpt_def Let_def split: option.splits)

lemma discoverBoard_cases:
  "(\<forall>b bs. getBoardsForProject c (projectKey cfg) = Inr (Some (b # bs)) \<longrightarrow>
      discoverBoard c cfg = Inr b)
   \<and> ((\<nexists>b bs. getBoardsForProject c (projectKey cfg) = Inr (Some (b # bs))) \<longrightarrow>
      discoverBoard c cfg = Inl (JsError (msgNoBoard (projectKey cfg))))"
  by (auto simp: discoverBoard_def split: sum.splits option.splits list.splits)

text \<open>
  The requests for no \<open>boardId\<close>: by the configured board, by the first board listed, or
  none for a sprint when no board is listed.
\<close>

definition sprintRequestsFor :: "jsnum \<Rightarrow> request list \<Rightarrow> request list \<Rightarrow> bool" where
  "sprintRequestsFor b before sent \<longleftrightarrow>
     (\<exists>rest. sent = before @ SprintsOfBoard b True # rest
        \<and> set rest \<subseteq> insert (SprintsOfBoard b False) (range SearchJira))"

lemma requests_of_target:
  assumes "targetBoard c cfg None = (before, Inr b)"
  shows "sprintRequestsFor b before (fst (getActiveSprint eng c cfg None))
    \<and> sprintRequestsFor b before (fst (getSprintDetails eng c cfg None))"
proof -
  from getActiveSprint_sent [OF assms, of eng] obtain rest where
    a: "fst (getActiveSprint eng c cfg None) = before @ SprintsOfBoard b True # rest"
    and r: "set rest \<subseteq> {SprintsOfBoard b False}"
    by blast
  from getSprintDetails_sent [of eng c cfg None] obtain extra where
    d: "fst (getSprintDetails eng c cfg None) = fst (getActiveSprint eng c cfg None) @ extra"
    and e: "set extra \<subseteq> range SearchJira"
    by blast
  have "sprintRequestsFor b before (fst (getActiveSprint eng c cfg None))"
    unfolding sprintRequestsFor_def using a r by auto
  moreover have "sprintRequestsFor b before (fst (getSprintDetails eng c cfg None))"
    unfolding sprintRequestsFor_def
  proof (intro exI conjI)
    show "fst (getSprintDetails eng c cfg None) = before @ SprintsOfBoard b True # (rest @ extra)"
      by (simp add: d a)
    show "set (rest @ extra) \<subseteq> insert (SprintsOfBoard b False) (range SearchJira)"
      using r e by auto
  qed
  ultimately show ?thesis ..
qed

lemma sprintRequestsFor_member:
  assumes "sprintRequestsFor b before sent" and "SprintsOfBoard b' active \<in> set sent"
    and "SprintsOfBoard b' active \<notin> set before"
  shows "b' = b"
  using assms by (auto simp: sprintRequestsFor_def)


lemma no_board_listed:
  assumes "\<not> truthyOpt (defaultBoardId cfg)"
    and "\<nexists>b bs. getBoardsForProject c (projectKey cfg) = Inr (Some (b # bs))"
  shows "getActiveSprint eng c cfg None =
      ([BoardsForProject (projectKey cfg)],
       Inl (JsError (msgNotFound @ msgNoBoard (projectKey cfg))))
    \<and> getSprintDetails eng c cfg None =
      ([BoardsForProject (projectKey cfg)], Inl (JsError msgNoDetails))"
proof -
  have "discoverBoard c cfg = Inl (JsError (msgNoBoard (projectKey cfg)))"
    using assms(2) discoverBoard_cases [of c cfg] by blast
  then have "targetBoard c cfg None =
      ([BoardsForProject (projectKey cfg)], Inl (JsError (msgNoBoard (projectKey cfg))))"
    using targetBoard_discover [OF assms(1), of c] by simp
  from getActiveSprint_no_target [OF this, of eng]
  have a: "getActiveSprint eng c cfg None =
      ([BoardsForProject (projectKey cfg)],
       Inl (JsError (msgNotFound @ msgNoBoard (projectKey cfg))))"
    by (simp add: notFound_def)
  then show ?thesis by (simp add: getSprintDetails_def)
qed

lemma board_listed:
  assumes "\<not> truthyOpt (defaultBoardId cfg)"
    and "getBoardsForProject c (projectKey cfg) = Inr (Some (b # bs))"
  shows "sprintRequestsFor b [BoardsForProject (projectKey cfg)]
        (fst (getActiveSprint eng c cfg None))
    \<and> sprintRequestsFor b [BoardsForProject (projectKey cfg)]
        (fst (getSprintDetails eng c cfg None))"
proof -
  have "discoverBoard c cfg = Inr b" using assms(2) discoverBoard_cases [of c cfg] by blast
  then have "targetBoard c cfg None = ([BoardsForProject (projectKey cfg)], Inr b)"
    using targetBoard_discover [OF assms(1), of c] by simp
  then show ?thesis by (rule requests_of_target)
qed

lemma board_configured:
  assumes "defaultBoardId cfg = Some d" and "truthy d"
  shows "sprintRequestsFor d [] (fst (getActiveSprint eng c cfg None))
    \<and> sprintRequestsFor d [] (fst (getSprintDetails eng c cfg None))"
  using targetBoard_default [OF assms, of c] by (rule requests_of_target)

lemma board_zero_only_if_listed:
  assumes "SprintsOfBoard (Num 0) active \<in> set (fst (getActiveSprint eng c cfg None))
      \<or> SprintsOfBoard (Num 0) active \<in> set (fst (getSprintDetails eng c cfg None))"
  shows "\<not> truthyOpt (defaultBoardId cfg)
    \<and> (\<exists>bs. getBoardsForProject c (projectKey cfg) = Inr (Some (Num 0 # bs)))"
proof (cases "truthyOpt (defaultBoardId cfg)")
  case True
  then obtain d where d: "defaultBoardId cfg = Some d" "truthy d"
    by (auto simp: truthyOpt_def split: option.splits)
  from board_configured [OF d, of eng c] assms have "d = Num 0"
    by (auto dest: sprintRequestsFor_member)
  with d(2) show ?thesis by simp
next
  case False
  show ?thesis
  proof (cases "\<exists>b bs. getBoardsForProject c (projectKey cfg) = Inr (Some (b # bs))")
    case True
    then obtain b bs where l: "getBoardsForProject c (projectKey cfg) = Inr (Some (b # bs))"
      by blast
    from board_listed [OF False l, of eng] assms have "b = Num 0"
      by (auto dest: sprintRequestsFor_member)
    with False l show ?thesis by blast
  next
    case n: False
    from no_board_listed [OF False n, of eng] assms show ?thesis by simp
  qed
qed

text \<open>
  Claim C10, as amended. A \<open>boardId\<close> that is the number 0, or a string that \<open>parseInt\<close>
  does not read as a number, gives each tool the requests and the result of a call with
  no \<open>boardId\<close>. Those are: when the configuration names a board that is not 0 (nor
  NaN), no board listing, and sprint requests for that board only, the one for its active
  sprints first; otherwise the listing of the boards of the project first, then sprint
  requests for the first board listed only, or no further request and a thrown \<open>Error\<close>
  when none is listed. A sprint request for board 0 is sent only when no board is
  configured and the first board listed has id 0.
\<close>

theorem boardId_zero_or_unparsable:
  "arg = NumberArg (Num 0) \<or> (\<exists>val. arg = StringArg val \<and> parseInt eng val = NaN) \<longrightarrow>
     toolActiveSprint eng c cfg arg = Some (getActiveSprint eng c cfg None)
   \<and> toolActiveSprint eng c cfg Omitted = Some (getActiveSprint eng c cfg None)
   \<and> toolSprintDetails eng c cfg arg = Some (getSprintDetails eng c cfg None)
   \<and> toolSprintDetails eng c cfg Omitted = Some (getSprintDetails eng c cfg None)
   \<and> (\<forall>d. defaultBoardId cfg = Some d \<and> truthy d \<longrightarrow>
        sprintRequestsFor d [] (fst (getActiveSprint eng c cfg None))
        \<and> sprintRequestsFor d [] (fst (getSprintDetails eng c cfg None)))
   \<and> (\<not> truthyOpt (defaultBoardId cfg) \<longrightarrow>
        (\<forall>b bs. getBoardsForProject c (projectKey cfg) = Inr (Some (b # bs)) \<longrightarrow>
           sprintRequestsFor b [BoardsForProject (projectKey cfg)]
             (fst (getActiveSprint eng c cfg None))
           \<and> sprintRequestsFor b [BoardsForProject (projectKey cfg)]
             (fst (getSprintDetails eng c cfg None)))
        \<and> ((\<nexists>b bs. getBoardsForProject c (projectKey cfg) = Inr (Some (b # bs))) \<longrightarrow>
           getActiveSprint eng c cfg None =
             ([BoardsForProject (projectKey cfg)],
              Inl (JsError (msgNotFound @ msgNoBoard (projectKey cfg))))
           \<and> getSprintDetails eng c cfg None =
             ([BoardsForProject (projectKey cfg)], Inl (JsError msgNoDetails))))
   \<and> (\<forall>active.
        SprintsOfBoard (Num 0) active \<in> set (fst (getActiveSprint eng c cfg None))
        \<or> SprintsOfBoard (Num 0) active \<in> set (fst (getSprintDetails eng c cfg None)) \<longrightarrow>
        \<not> truthyOpt (defaultBoardId cfg)
        \<and> (\<exists>bs. getBoardsForProject c (projectKey cfg) = Inr (Some (Num 0 # bs))))"
proof (intro impI)
  assume "arg = NumberArg (Num 0) \<or> (\<exists>val. arg = StringArg val \<and> parseInt eng val = NaN)"
  then obtain b where b: "boardIdSchema eng arg = Some b" "\<not> truthyOpt b"
    by (auto simp: boardIdSchema_def truthyOpt_def Let_def)
  have o: "boardIdSchema eng Omitted = Some None" by (simp add: boardIdSchema_def)
  have 1: "toolActiveSprint eng c cfg arg = Some (getActiveSprint eng c cfg None)"
    using b getActiveSprint_falsy [OF b(2)] by (simp add: toolActiveSprint_def)
  have 2: "toolActiveSprint eng c cfg Omitted = Some (getActiveSprint eng c cfg None)"
    using o by (simp add: toolActiveSprint_def)
  have 3: "toolSprintDetails eng c cfg arg = Some (getSprintDetails eng c cfg None)"
    using b getSprintDetails_falsy [OF b(2)] by (simp add: toolSprintDetails_def)
  have 4: "toolSprintDetails eng c cfg Omitted = Some (getSprintDetails eng c cfg None)"
    using o by (simp add: toolSprintDetails_def)
  have 5: "\<forall>d. defaultBoardId cfg = Some d \<and> truthy d \<longrightarrow>
        sprintRequestsFor d [] (fst (getActiveSprint eng c cfg None))
        \<and> sprintRequestsFor d [] (fst (getSprintDetails eng c cfg None))"
    using board_configured [of cfg _ eng c] by blast
  have 6: "\<not> truthyOpt (defaultBoardId cfg) \<longrightarrow>
        (\<forall>b bs. getBoardsForProject c (projectKey cfg) = Inr (Some (b # bs)) \<longrightarrow>
           sprintRequestsFor b [BoardsForProject (projectKey cfg)]
             (fst (getActiveSprint eng c cfg None))
           \<and> sprintRequestsFor b [BoardsForProject (projectKey cfg)]
             (fst (getSprintDetails eng c cfg None)))
        \<and> ((\<nexists>b bs. getBoardsForProject c (projectKey cfg) = Inr (Some (b # bs))) \<longrightarrow>
           getActiveSprint eng c cfg None =
             ([BoardsForProject (projectKey cfg)],
              Inl (JsError (msgNotFound @ msgNoBoard (projectKey cfg))))
           \<and> getSprintDetails eng c cfg None =
             ([BoardsForProject (projectKey cfg)], Inl (JsError msgNoDetails)))"
    using board_listed [of cfg c _ _ eng] no_board_listed [of cfg c eng] by blast
  have 7: "\<forall>active.
        SprintsOfBoard (Num 0) active \<in> set (fst (getActiveSprint eng c cfg None))
        \<or> SprintsOfBoard (Num 0) active \<in> set (fst (getSprintDetails eng c cfg None)) \<longrightarrow>
        \<not> truthyOpt (defaultBoardId cfg)
        \<and> (\<exists>bs. getBoardsForProject c (projectKey cfg) = Inr (Some (Num 0 # bs)))"
    using board_zero_only_if_listed [of _ eng c cfg] by blast
  from 1 2 3 4 5 6 7 show
    "toolActiveSprint eng c cfg arg = Some (getActiveSprint eng c cfg None)
   \<and> toolActiveSprint eng c cfg Omitted = Some (getActiveSprint eng c cfg None)
   \<and> toolSprintDetails eng c cfg arg = Some (getSprintDetails eng c cfg None)
   \<and> toolSprintDetails eng c cfg Omitted = Some (getSprintDetails eng c cfg None)
   \<and> (\<forall>d. defaultBoardId cfg = Some d \<and> truthy d \<longrightarrow>
        sprintRequestsFor d [] (fst (getActiveSprint eng c cfg None))
        \<and> sprintRequestsFor d [] (fst (getSprintDetails eng c cfg None)))
   \<and> (\<not> truthyOpt (defaultBoardId cfg) \<longrightarrow>
        (\<forall>b bs. getBoardsForProject c (projectKey cfg) = Inr (Some (b # bs)) \<longrightarrow>
           sprintRequestsFor b [BoardsForProject (projectKey cfg)]
             (fst (getActiveSprint eng c cfg None))
           \<and> sprintRequestsFor b [BoardsForProject (projectKey cfg)]
             (fst (getSprintDetails eng c cfg None)))
        \<and> ((\<nexists>b bs. getBoardsForProject c (projectKey cfg) = Inr (Some (b # bs))) \<longrightarrow>
           getActiveSprint eng c cfg None =
             ([BoardsForProject (projectKey cfg)],
              Inl (JsError (msgNotFound @ msgNoBoard (projectKey cfg))))
           \<and> getSprintDetails eng c cfg None =
             ([BoardsForProject (projectKey cfg)], Inl (JsError msgNoDetails))))
   \<and> (\<forall>active.
        SprintsOfBoard (Num 0) active \<in> set (fst (getActiveSprint eng c cfg None))
        \<or> SprintsOfBoard (Num 0) active \<in> set (fst (getSprintDetails eng c cfg None)) \<longrightarrow>
        \<not> truthyOpt (defaultBoardId cfg)
        \<and> (\<exists>bs. getBoardsForProject c (projectKey cfg) = Inr (Some (Num 0 # bs))))"
    by (intro conjI)
qed


text \<open>A configuration that names board 7, and a Jira whose first board of the project has id 0.\<close>

definition configuredBoard :: config where
  "configuredBoard = \<lparr>projectKey = ''PROJ'', defaultBoardId = Some (Num 7)\<rparr>"

definition zeroBoardClient :: client where
  "zeroBoardClient =
     \<lparr>getBoardsForProject = (\<lambda>pk. Inr (Some [Num 0])),
      sprintsOfBoard = (\<lambda>b active. Inr (Some [sprintMarch])),
      searchJira = (\<lambda>sprintId. Inr (Some []))\<rparr>"

lemma zeroBoard_requests:
  "getActiveSprint scenarioEngine zeroBoardClient scenarioConfig None =
     ([BoardsForProject ''PROJ'', SprintsOfBoard (Num 0) True], Inr sprintMarch)
   \<and> getSprintDetails scenarioEngine zeroBoardClient scenarioConfig None =
     ([BoardsForProject ''PROJ'', SprintsOfBoard (Num 0) True, SearchJira 3],
      Inr (detailsOf sprintMarch []))"
  by (simp add: getSprintDetails_def getSprintIssues_def getActiveSprint_def targetBoard_def
      truthyOpt_def discoverBoard_def querySprints_def zeroBoardClient_def scenarioConfig_def
      sprintMarch_def)

text \<open>
  Claim C10 as stated fails: when the first board Jira lists for the project has id 0,
  a call with \<open>boardId = 0\<close> (as one with no \<open>boardId\<close>) sends the sprint request for
  board 0.
\<close>

theorem board_zero_is_queried:
  "toolActiveSprint scenarioEngine zeroBoardClient scenarioConfig (NumberArg (Num 0)) =
     Some ([BoardsForProject ''PROJ'', SprintsOfBoard (Num 0) True], Inr sprintMarch)
   \<and> toolSprintDetails scenarioEngine zeroBoardClient scenarioConfig (NumberArg (Num 0)) =
     Some ([BoardsForProject ''PROJ'', SprintsOfBoard (Num 0) True, SearchJira 3],
           Inr (detailsOf sprintMarch []))
   \<and> SprintsOfBoard (Num 0) True \<in>
       set [BoardsForProject ''PROJ'', SprintsOfBoard (Num 0) True, SearchJira 3]"
proof -
  have f: "\<not> truthyOpt (Some (Num 0))" by (simp add: truthyOpt_def)
  have "boardIdSchema scenarioEngine (NumberArg (Num 0)) = Some (Some (Num 0))"
    by (simp add: boardIdSchema_def)
  then show ?thesis
    using zeroBoard_requests getActiveSprint_falsy [OF f] getSprintDetails_falsy [OF f]
    by (simp add: toolActiveSprint_def toolSprintDetails_def)
qed

theorem boardId_zero_or_unparsable_witness:
  "toolSprintDetails scenarioEngine scenarioClient scenarioConfig (NumberArg (Num 0)) =
     toolSprintDetails scenarioEngine scenarioClient scenarioConfig Omitted
   \<and> toolActiveSprint scenarioEngine scenarioClient scenarioConfig (StringArg ''abc'') =
     Some (getActiveSprint scenarioEngine scenarioClient scenarioConfig None)
   \<and> sprintRequestsFor (Num 7) []
       (fst (getSprintDetails scenarioEngine scenarioClient configuredBoard None))
   \<and> sprintRequestsFor (Num 7) [BoardsForProject ''PROJ'']
       (fst (getSprintDetails scenarioEngine scenarioClient scenarioConfig None))
   \<and> getSprintDetails scenarioEngine allFail scenarioConfig None =
       ([BoardsForProject ''PROJ''], Inl (JsError msgNoDetails))
   \<and> (\<exists>bs. getBoardsForProject zeroBoardClient ''PROJ'' = Inr (Some (Num 0 # bs)))"
proof -
  have p: "parseInt scenarioEngine ''abc'' = NaN" by (simp add: scenarioEngine_def)
  have zero: "NumberArg (Num 0) = NumberArg (Num 0)
      \<or> (\<exists>val. NumberArg (Num 0) = StringArg val \<and> parseInt scenarioEngine val = NaN)"
    by simp
  have abc: "StringArg ''abc'' = NumberArg (Num 0)
      \<or> (\<exists>val. StringArg ''abc'' = StringArg val \<and> parseInt scenarioEngine val = NaN)"
    using p by blast
  note s = mp [OF boardId_zero_or_unparsable [of "NumberArg (Num 0)" scenarioEngine
        scenarioClient scenarioConfig] zero]
  note t = mp [OF boardId_zero_or_unparsable [of "StringArg ''abc''" scenarioEngine
        scenarioClient scenarioConfig] abc]
  note b = mp [OF boardId_zero_or_unparsable [of "NumberArg (Num 0)" scenarioEngine
        scenarioClient configuredBoard] zero]
  note f = mp [OF boardId_zero_or_unparsable [of "NumberArg (Num 0)" scenarioEngine
        allFail scenarioConfig] zero]
  note o = mp [OF boardId_zero_or_unparsable [of "NumberArg (Num 0)" scenarioEngine
        zeroBoardClient scenarioConfig] zero]
  have 1: "toolSprintDetails scenarioEngine scenarioClient scenarioConfig (NumberArg (Num 0)) =
     toolSprintDetails scenarioEngine scenarioClient scenarioConfig Omitted"
    using s [THEN conjunct2, THEN conjunct2, THEN conjunct1]
      s [THEN conjunct2, THEN conjunct2, THEN conjunct2, THEN conjunct1]
    by (simp only:)
  have 2: "toolActiveSprint scenarioEngine scenarioClient scenarioConfig (StringArg ''abc'') =
     Some (getActiveSprint scenarioEngine scenarioClient scenarioConfig None)"
    by (rule t [THEN conjunct1])
  have d: "defaultBoardId configuredBoard = Some (Num 7) \<and> truthy (Num 7)"
    by (simp add: configuredBoard_def)
  have 3: "sprintRequestsFor (Num 7) []
       (fst (getSprintDetails scenarioEngine scenarioClient configuredBoard None))"
    using b [THEN conjunct2, THEN conjunct2, THEN conjunct2, THEN conjunct2, THEN conjunct1,
        rule_format, OF d]
    by (rule conjunct2)
  have n: "\<not> truthyOpt (defaultBoardId scenarioConfig)"
    by (simp add: scenarioConfig_def truthyOpt_def)
  have k: "projectKey scenarioConfig = ''PROJ''" by (simp add: scenarioConfig_def)
  have l: "getBoardsForProject scenarioClient (projectKey scenarioConfig) =
      Inr (Some (Num 7 # []))"
    by (simp add: scenarioClient_def)
  note s6 = s [THEN conjunct2, THEN conjunct2, THEN conjunct2, THEN conjunct2, THEN conjunct2,
      THEN conjunct1, rule_format, OF n]
  have 4: "sprintRequestsFor (Num 7) [BoardsForProject ''PROJ'']
       (fst (getSprintDetails scenarioEngine scenarioClient scenarioConfig None))"
    using s6 [THEN conjunct1, rule_format, OF l] by (simp only: k)
  have a: "\<nexists>b bs. getBoardsForProject allFail (projectKey scenarioConfig) = Inr (Some (b # bs))"
    by (simp add: allFail_def)
  note f6 = f [THEN conjunct2, THEN conjunct2, THEN conjunct2, THEN conjunct2, THEN conjunct2,
      THEN conjunct1, rule_format, OF n]
  have 5: "getSprintDetails scenarioEngine allFail scenarioConfig None =
       ([BoardsForProject ''PROJ''], Inl (JsError msgNoDetails))"
    using f6 [THEN conjunct2, rule_format, OF a] by (simp only: k)
  have q: "SprintsOfBoard (Num 0) True \<in>
        set (fst (getActiveSprint scenarioEngine zeroBoardClient scenarioConfig None))
      \<or> SprintsOfBoard (Num 0) True \<in>
        set (fst (getSprintDetails scenarioEngine zeroBoardClient scenarioConfig None))"
    using zeroBoard_requests by simp
  have 6: "\<exists>bs. getBoardsForProject zeroBoardClient ''PROJ'' = Inr (Some (Num 0 # bs))"
    using o [THEN conjunct2, THEN conjunct2, THEN conjunct2, THEN conjunct2, THEN conjunct2,
        THEN conjunct2, rule_format, OF q]
    by (simp only: k)
  from 1 2 3 4 5 6 show ?thesis by (intro conjI)
qed

section \<open>The progress numbers of the prompt\<close>

text \<open>
  \<open>new Date(d).getTime()\<close> for a date field of a sprint: NaN when the field is left out
  (\<open>new Date(undefined)\<close> is an invalid date), 0 when it is \<open>null\<close>, and else its instant.
  \<open>msPerDay\<close> is \<open>1000 * 60 * 60 * 24\<close>.
\<close>

fun getTime :: "dateField \<Rightarrow> jsnum" where
  "getTime DateMissing = NaN"
| "getTime DateNull = Num 0"
| "getTime (DateAt ms) = Num (of_int ms)"

definition msPerDay :: jsnum where
  "msPerDay = jmul (jmul (jmul (Num 1000) (Num 60)) (Num 60)) (Num 24)"

record progressNumbers =
  totalDays :: jsnum
  daysLeft :: jsnum
  percentTimeElapsed :: jsnum
  pointsPerDay :: jsnum
  projectedCompletion :: jsnum
  burndownDifference :: jsnum

text \<open>
  The arithmetic of \<open>buildSprintProgressPrompt\<close> once it has \<open>totalDays\<close> and
  \<open>daysLeft\<close>, on the completed points and the percentage of the details:
  \<open>percentTimeElapsed\<close>, then \<open>pointsPerDay\<close> with its guard
  \<open>totalDays - daysLeft || 1\<close>, \<open>projectedCompletion\<close> and \<open>burndownDifference\<close>.
\<close>

definition velocity :: "jsnum \<Rightarrow> jsnum \<Rightarrow> jsnum \<Rightarrow> jsnum \<Rightarrow> progressNumbers" where
  "velocity totalDays' daysLeft' completedPts percentComplete =
     (let percentTimeElapsed' =
            jround (jmul (jdiv (jsub totalDays' daysLeft') totalDays') (Num 100));
          elapsed = jsub totalDays' daysLeft';
          pointsPerDay' = jdiv completedPts (if truthy elapsed then elapsed else Num 1);
          projectedCompletion' = jround (jmul pointsPerDay' totalDays');
          burndownDifference' = jsub percentComplete percentTimeElapsed'
      in \<lparr>totalDays = totalDays', daysLeft = daysLeft',
          percentTimeElapsed = percentTimeElapsed', pointsPerDay = pointsPerDay',
          projectedCompletion = projectedCompletion',
          burndownDifference = burndownDifference'\<rparr>)"

text \<open>
  The numbers that \<open>buildSprintProgressPrompt\<close> writes into its prompt: the days come
  from the dates of the sprint and from \<open>today\<close>, the instant of the call in
  milliseconds, by \<open>Math.floor\<close> and \<open>Math.max(0, \<dots>)\<close>.
\<close>

definition buildSprintProgressPrompt :: "details \<Rightarrow> int \<Rightarrow> progressNumbers" where
  "buildSprintProgressPrompt d today =
     (let endTime = getTime (endDate (details_sprint d));
          totalDays' =
            jfloor (jdiv (jsub endTime (getTime (startDate (details_sprint d)))) msPerDay);
          daysLeft' = jmax0 (jfloor (jdiv (jsub endTime (Num (of_int today))) msPerDay))
      in velocity totalDays' daysLeft'
           (progress_completedPoints (details_numbers d))
           (progress_percentComplete (details_numbers d)))"


subsection \<open>Velocity and projection\<close>

lemma msPerDay_value: "msPerDay = Num 86400000"
  by (simp add: msPerDay_def fl_numeral)









definition fourPointsDone :: issue where
  "fourPointsDone =
     \<lparr>status_name = ''Done'', issuetype_name = ''Story'', customfield_10016 = Some (Num 4)\<rparr>"






subsection \<open>A sprint of less than a day\<close>

text \<open>Whether a value is a finite number.\<close>

fun isFinite :: "jsnum \<Rightarrow> bool" where
  "isFinite (Num a) = True"
| "isFinite x = False"

lemma jdiv_zero_not_finite: "\<not> isFinite (jdiv x (Num 0))"
  by (cases x) simp_all

lemma jmul_not_finite:
  assumes "\<not> isFinite x"
  shows "\<not> isFinite (jmul x (Num 100))"
  using assms by (cases x) simp_all

lemma jround_not_finite:
  assumes "\<not> isFinite x"
  shows "\<not> isFinite (jround x)"
  using assms by (cases x) simp_all

lemma jsub_not_finite:
  assumes "\<not> isFinite y"
  shows "\<not> isFinite (jsub x y)"
  using assms by (cases x; cases y) (simp_all add: jsub_def)

text \<open>A sprint that starts and ends at the same instant, looked at one day later.\<close>

definition zeroLengthSprint :: sprint where
  "zeroLengthSprint =
     \<lparr>sprint_id = 5, sprint_name = ''Sprint 5'', goal = None, startDate = DateAt 1709251200000,
      endDate = DateAt 1709251200000, state = ''active''\<rparr>"

definition zeroLengthDetails :: details where
  "zeroLengthDetails =
     detailsOf zeroLengthSprint [fourPointsDone]"

lemma zeroLength_days:
  "totalDays (buildSprintProgressPrompt zeroLengthDetails 1709337600000) = Num 0
   \<and> daysLeft (buildSprintProgressPrompt zeroLengthDetails 1709337600000) = Num 0"
  by (simp add: buildSprintProgressPrompt_def Let_def zeroLengthDetails_def detailsOf_def zeroLengthSprint_def
      msPerDay_value velocity_def jsub_def fl_zero fl_of_int [of "- 86400000", simplified]
      fl_of_int [of "- 1", simplified])

text \<open>
  Claim C6. With \<open>totalDays = 0\<close> the code divides by it all the same: whatever
  \<open>daysLeft\<close> is, \<open>percentTimeElapsed\<close> and \<open>burndownDifference\<close> are NaN or an infinity,
  never a finite number. For the sprint of no length both are NaN.
\<close>

theorem no_fallback_for_zero_days:
  "\<not> isFinite (percentTimeElapsed (velocity (Num 0) L c pc))
   \<and> \<not> isFinite (burndownDifference (velocity (Num 0) L c pc))
   \<and> totalDays (buildSprintProgressPrompt zeroLengthDetails 1709337600000) = Num 0
   \<and> daysLeft (buildSprintProgressPrompt zeroLengthDetails 1709337600000) = Num 0
   \<and> percentTimeElapsed (buildSprintProgressPrompt zeroLengthDetails 1709337600000) = NaN
   \<and> burndownDifference (buildSprintProgressPrompt zeroLengthDetails 1709337600000) = NaN"
proof -
  have p: "\<not> isFinite (percentTimeElapsed (velocity (Num 0) L c pc))" for L c pc
    by (simp add: velocity_def Let_def jround_not_finite jmul_not_finite jdiv_zero_not_finite
        del: jdiv.simps jmul.simps)
  have b: "\<not> isFinite (burndownDifference (velocity (Num 0) L c pc))" for L c pc
    using p [of L c pc] by (simp add: velocity_def Let_def jsub_not_finite del: jdiv.simps jmul.simps)
  have v: "buildSprintProgressPrompt zeroLengthDetails 1709337600000 =
      velocity (Num 0) (Num 0) (progress_completedPoints (details_numbers zeroLengthDetails))
        (progress_percentComplete (details_numbers zeroLengthDetails))"
    using zeroLength_days by (simp add: buildSprintProgressPrompt_def Let_def velocity_def)
  have t: "percentTimeElapsed (velocity (Num 0) (Num 0) c pc) = NaN" for c pc
    by (simp add: velocity_def Let_def jsub_def fl_zero)
  have d: "burndownDifference (velocity (Num 0) (Num 0) c pc) = NaN" for c pc
    by (cases pc) (simp_all add: velocity_def Let_def jsub_def fl_zero)
  show ?thesis using p b zeroLength_days by (simp add: v t d)
qed

end
